theory Spec2Isabelle
  imports Main
begin

section \<open>Python values\<close>

text \<open>
  The two adapters probe the vendor's response objects dynamically (\<^verbatim>\<open>getattr\<close> with
  a default, \<^verbatim>\<open>hasattr\<close>, \<^verbatim>\<open>isinstance\<close>, truth tests), so a response is modelled
  as a dynamically typed value. A dictionary is the list of its items in insertion order,
  an object the list of its attributes. Numbers are integers.
\<close>

datatype pyval =
    PNone
  | PBool bool
  | PInt int
  | PStr string
  | PList "pyval list"
  | PDict "(string \<times> pyval) list"
  | PObj "(string \<times> pyval) list"

type_synonym dict = "(string \<times> pyval) list"

text \<open>
  The exceptions are instances of Python's \<^verbatim>\<open>Exception\<close>: the class and its message.
  \<open>ProviderError\<close> stands for any exception class of the vendor client,
  \<open>ValidationError\<close> is what a constructor of the host raises on a badly typed field.
\<close>

datatype exn =
    ValueError string
  | ImportError string
  | AttributeError string
  | TypeError string
  | KeyError string
  | Exception string
  | ProviderError string
  | ValidationError string

datatype log_level = INFO | WARNING | ERROR

text \<open>Python's truth test: \<^verbatim>\<open>if x\<close>, \<^verbatim>\<open>not x\<close>, \<^verbatim>\<open>x or y\<close>.\<close>

fun truthy :: "pyval \<Rightarrow> bool" where
  "truthy PNone = False"
| "truthy (PBool b) = b"
| "truthy (PInt i) = (i \<noteq> 0)"
| "truthy (PStr s) = (s \<noteq> [])"
| "truthy (PList xs) = (xs \<noteq> [])"
| "truthy (PDict kvs) = (kvs \<noteq> [])"
| "truthy (PObj attrs) = True"

definition py_or :: "pyval \<Rightarrow> pyval \<Rightarrow> pyval" where
  "py_or a b = (if truthy a then a else b)"

fun isinstance_dict :: "pyval \<Rightarrow> bool" where
  "isinstance_dict (PDict kvs) = True"
| "isinstance_dict v = False"

fun isinstance_list :: "pyval \<Rightarrow> bool" where
  "isinstance_list (PList xs) = True"
| "isinstance_list v = False"

fun isinstance_str :: "pyval \<Rightarrow> bool" where
  "isinstance_str (PStr s) = True"
| "isinstance_str v = False"

text \<open>Attribute access: \<^verbatim>\<open>hasattr(o, name)\<close>, \<^verbatim>\<open>o.name\<close> and \<^verbatim>\<open>getattr(o, name, default)\<close>.\<close>

fun lookup_attr :: "pyval \<Rightarrow> string \<Rightarrow> pyval option" where
  "lookup_attr (PObj attrs) name = map_of attrs name"
| "lookup_attr v name = None"

definition hasattr :: "pyval \<Rightarrow> string \<Rightarrow> bool" where
  "hasattr obj name = (lookup_attr obj name \<noteq> None)"

definition getattr :: "pyval \<Rightarrow> string \<Rightarrow> exn + pyval" where
  "getattr obj name =
     (case lookup_attr obj name of None \<Rightarrow> Inl (AttributeError name) | Some v \<Rightarrow> Inr v)"

definition getattr_default :: "pyval \<Rightarrow> string \<Rightarrow> pyval \<Rightarrow> pyval" where
  "getattr_default obj name d = (case lookup_attr obj name of None \<Rightarrow> d | Some v \<Rightarrow> v)"

text \<open>
  The items a \<^verbatim>\<open>for\<close> loop visits: the elements of a list, the characters of a string,
  the keys of a dictionary; anything else is not iterable.
\<close>

fun py_iter :: "pyval \<Rightarrow> exn + pyval list" where
  "py_iter (PList xs) = Inr xs"
| "py_iter (PStr s) = Inr (map (\<lambda>c. PStr [c]) s)"
| "py_iter (PDict kvs) = Inr (map (\<lambda>kv. PStr (fst kv)) kvs)"
| "py_iter v = Inl (TypeError ''object is not iterable'')"

text \<open>Dictionary operations: \<^verbatim>\<open>d[k] = v\<close>, \<^verbatim>\<open>d.update(other)\<close>, \<^verbatim>\<open>d[k]\<close>, \<^verbatim>\<open>d.get(k, default)\<close>.\<close>

definition dict_setitem :: "dict \<Rightarrow> string \<Rightarrow> pyval \<Rightarrow> dict" where
  "dict_setitem d k v =
     (if k \<in> fst ` set d then map (\<lambda>kv. if fst kv = k then (k, v) else kv) d
      else d @ [(k, v)])"

definition dict_update :: "dict \<Rightarrow> dict \<Rightarrow> dict" where
  "dict_update d other = foldl (\<lambda>acc kv. dict_setitem acc (fst kv) (snd kv)) d other"

definition dict_getitem :: "dict \<Rightarrow> string \<Rightarrow> exn + pyval" where
  "dict_getitem d k = (case map_of d k of None \<Rightarrow> Inl (KeyError k) | Some v \<Rightarrow> Inr v)"

definition dict_get :: "dict \<Rightarrow> string \<Rightarrow> pyval \<Rightarrow> pyval" where
  "dict_get d k dflt = (case map_of d k of None \<Rightarrow> dflt | Some v \<Rightarrow> v)"

section \<open>The collaborators\<close>

text \<open>
  The vendor package: the client class \<^verbatim>\<open>Valyu\<close> (its constructor takes the API key and
  may raise) and the two client methods. A client is a state of type \<open>'c\<close>; a call of
  \<^verbatim>\<open>contents\<close> returns or raises and leaves the client in a new state, so that the
  provider may answer each batch differently.
\<close>

record 'c valyu_sdk =
  Valyu :: "string \<Rightarrow> exn + 'c"
  search :: "'c \<Rightarrow> string \<Rightarrow> int \<Rightarrow> exn + pyval"
  contents :: "'c \<Rightarrow> pyval list \<Rightarrow> pyval \<Rightarrow> pyval \<Rightarrow> (exn + pyval) \<times> 'c"

text \<open>
  The outcome of \<^verbatim>\<open>from valyu import Valyu\<close> is a \<open>'c valyu_sdk option\<close>: \<open>None\<close> when
  the package is not installed and the statement raises \<^verbatim>\<open>ImportError\<close>.

  The host: Python's \<^verbatim>\<open>str\<close> and \<^verbatim>\<open>json.dumps(value, indent=n)\<close>, and the domain
  filter \<^verbatim>\<open>get_filtered_results\<close> of \<^verbatim>\<open>open_webui.retrieval.web.main\<close>. None of them is
  part of the two files, so they are parameters.
\<close>

record host =
  py_str :: "pyval \<Rightarrow> string"
  json_dumps :: "pyval \<Rightarrow> nat \<Rightarrow> exn + string"
  get_filtered_results :: "dict list \<Rightarrow> string list \<Rightarrow> exn + dict list"

text \<open>
  Modelled from the spec: the host's \<^verbatim>\<open>SearchResult\<close> and langchain's \<^verbatim>\<open>Document\<close> are
  declared outside the two files. The spec types their fields: link, title and snippet
  are strings, content is a string, metadata a mapping. Both are validated models, so the
  constructor raises when a field has another type: the link and the page content must be
  strings, the title and the snippet strings or \<^verbatim>\<open>None\<close>.
\<close>

record SearchResult =
  link :: string
  title :: "string option"
  snippet :: "string option"

record Document =
  page_content :: string
  metadata :: dict

fun validate_str :: "string \<Rightarrow> pyval \<Rightarrow> exn + string" where
  "validate_str field (PStr s) = Inr s"
| "validate_str field v = Inl (ValidationError field)"

fun validate_optional_str :: "string \<Rightarrow> pyval \<Rightarrow> exn + string option" where
  "validate_optional_str field (PStr s) = Inr (Some s)"
| "validate_optional_str field PNone = Inr None"
| "validate_optional_str field v = Inl (ValidationError field)"

definition SearchResult_init :: "pyval \<Rightarrow> pyval \<Rightarrow> pyval \<Rightarrow> exn + SearchResult" where
  "SearchResult_init l t s =
     (case validate_str ''link'' l of
        Inl e \<Rightarrow> Inl e
      | Inr l' \<Rightarrow>
          (case validate_optional_str ''title'' t of
             Inl e \<Rightarrow> Inl e
           | Inr t' \<Rightarrow>
               (case validate_optional_str ''snippet'' s of
                  Inl e \<Rightarrow> Inl e
                | Inr s' \<Rightarrow> Inr \<lparr>link = l', title = t', snippet = s'\<rparr>)))"

definition Document_init :: "pyval \<Rightarrow> dict \<Rightarrow> exn + Document" where
  "Document_init c md =
     (case validate_str ''page_content'' c of
        Inl e \<Rightarrow> Inl e
      | Inr c' \<Rightarrow> Inr \<lparr>page_content = c', metadata = md\<rparr>)"

section \<open>web/valyu.py: the search adapter\<close>

text \<open>Lines 66 to 77: the conversion of structured content, with the warning it may log.\<close>

definition convert_content :: "host \<Rightarrow> pyval \<Rightarrow> pyval \<Rightarrow> log_level list \<times> pyval" where
  "convert_content h dt c =
     (if dt = PStr ''structured'' \<and> truthy c then
        (if isinstance_dict c \<or> isinstance_list c then
           (case json_dumps h c 2 of
              Inr s \<Rightarrow> ([], PStr s)
            | Inl e \<Rightarrow> ([WARNING], PStr (py_str h c)))
         else if \<not> isinstance_str c then ([], PStr (py_str h c))
         else ([], c))
      else ([], c))"

text \<open>Lines 57 to 64: the fields read from one raw result.\<close>

definition raw_content :: "pyval \<Rightarrow> pyval" where
  "raw_content result =
     py_or (py_or (getattr_default result ''content'' (PStr ''''))
                  (getattr_default result ''text'' (PStr '''')))
           (getattr_default result ''snippet'' (PStr ''''))"

definition raw_data_type :: "pyval \<Rightarrow> pyval" where
  "raw_data_type result = getattr_default result ''data_type'' (PStr ''unstructured'')"

text \<open>Lines 56 to 87: the loop over the raw results, with the warnings logged on the way.\<close>

fun extract_results :: "host \<Rightarrow> pyval list \<Rightarrow> log_level list \<times> dict list" where
  "extract_results h [] = ([], [])"
| "extract_results h (result # rest) =
     (let u = getattr_default result ''url'' (PStr '''');
          t = getattr_default result ''title'' (PStr '''');
          dt = raw_data_type result;
          cv = convert_content h dt (raw_content result);
          tl = extract_results h rest
      in (fst cv @ fst tl,
          if truthy u
          then [(''url'', u), (''title'', t), (''content'', snd cv), (''data_type'', dt)] # snd tl
          else snd tl))"

text \<open>
  Lines 95 to 102: the list comprehension; a missing \<^verbatim>\<open>"url"\<close> key raises, and so does
  the constructor on a badly typed field.
\<close>

definition to_SearchResult :: "dict \<Rightarrow> exn + SearchResult" where
  "to_SearchResult result =
     (case dict_getitem result ''url'' of
        Inl e \<Rightarrow> Inl e
      | Inr u \<Rightarrow> SearchResult_init u (dict_get result ''title'' (PStr ''''))
                   (dict_get result ''content'' (PStr '''')))"

fun to_SearchResults :: "dict list \<Rightarrow> exn + SearchResult list" where
  "to_SearchResults [] = Inr []"
| "to_SearchResults (result # rest) =
     (case to_SearchResult result of
        Inl e \<Rightarrow> Inl e
      | Inr sr \<Rightarrow> (case to_SearchResults rest of Inl e \<Rightarrow> Inl e | Inr srs \<Rightarrow> Inr (sr # srs)))"

text \<open>Lines 53 to 87: \<^verbatim>\<open>results\<close> after the extraction loop; iterating may raise.\<close>

definition collect_results :: "host \<Rightarrow> pyval \<Rightarrow> exn + log_level list \<times> dict list" where
  "collect_results h response =
     (if hasattr response ''results'' \<and> truthy (getattr_default response ''results'' PNone)
      then (case py_iter (getattr_default response ''results'' PNone) of
              Inl e \<Rightarrow> Inl e
            | Inr rs \<Rightarrow> Inr (extract_results h rs))
      else Inr ([], []))"

text \<open>Lines 89 to 91: the domain filter, applied when both lists are non-empty.\<close>

definition apply_filter :: "host \<Rightarrow> string list option \<Rightarrow> dict list \<Rightarrow> exn + dict list" where
  "apply_filter h filter_list results =
     (case filter_list of
        None \<Rightarrow> Inr results
      | Some fl \<Rightarrow> if fl \<noteq> [] \<and> results \<noteq> [] then get_filtered_results h results fl
                  else Inr results)"

text \<open>
  Lines 37 to 102: the body of the second \<^verbatim>\<open>try\<close>. The result is what was logged and
  either the exception that left the body or the list it returned.
\<close>

definition search_body ::
  "host \<Rightarrow> 'c valyu_sdk \<Rightarrow> string \<Rightarrow> string \<Rightarrow> int \<Rightarrow> string list option
     \<Rightarrow> log_level list \<times> (exn + SearchResult list)" where
  "search_body h sdk key query count filter_list =
     (case Valyu sdk key of
        Inl e \<Rightarrow> ([], Inl e)
      | Inr cl \<Rightarrow>
          (case search sdk cl query (if count \<noteq> 0 then count else 10) of
             Inl e \<Rightarrow> ([], Inl e)
           | Inr response \<Rightarrow>
               (case getattr response ''success'' of
                  Inl e \<Rightarrow> ([], Inl e)
                | Inr ok \<Rightarrow>
                    if \<not> truthy ok then ([ERROR], Inr [])
                    else
                      (case collect_results h response of
                         Inl e \<Rightarrow> ([], Inl e)
                       | Inr lr \<Rightarrow>
                           (case apply_filter h filter_list (snd lr) of
                              Inl e \<Rightarrow> (fst lr, Inl e)
                            | Inr results \<Rightarrow> (fst lr @ [INFO], to_SearchResults results))))))"

text \<open>Lines 29 to 106: the whole function, with both handlers.\<close>

definition search_valyu ::
  "host \<Rightarrow> 'c valyu_sdk option \<Rightarrow> string \<Rightarrow> string \<Rightarrow> int \<Rightarrow> string list option
     \<Rightarrow> log_level list \<times> (exn + SearchResult list)" where
  "search_valyu h valyu_module key query count filter_list =
     (case valyu_module of
        None \<Rightarrow> ([ERROR], Inr [])
      | Some sdk \<Rightarrow>
          (case search_body h sdk key query count filter_list of
             (lg, Inl e) \<Rightarrow> (INFO # lg @ [ERROR], Inr [])
           | (lg, Inr srs) \<Rightarrow> (INFO # lg, Inr srs)))"

text \<open>
  What lines 57 to 86 make of one raw result: the test of line 79 and the dictionary
  appended to \<^verbatim>\<open>results\<close> for a result that passes it.
\<close>

definition has_url :: "pyval \<Rightarrow> bool" where
  "has_url result = truthy (getattr_default result ''url'' (PStr ''''))"

definition entry :: "host \<Rightarrow> pyval \<Rightarrow> dict" where
  "entry h result =
     [(''url'', getattr_default result ''url'' (PStr '''')),
      (''title'', getattr_default result ''title'' (PStr '''')),
      (''content'', snd (convert_content h (raw_data_type result) (raw_content result))),
      (''data_type'', raw_data_type result)]"

section \<open>loaders/valyu.py: the extraction adapter\<close>

record 'c ValyuLoader =
  api_key :: string
  urls :: "pyval list"
  response_length :: pyval
  extract_effort :: pyval
  continue_on_failure :: bool
  client :: 'c

text \<open>
  Lines 27 to 61: the constructor. \<open>us\<close> is the argument \<^verbatim>\<open>urls\<close>, a string or a list;
  the first argument is the outcome of the import statement.
\<close>

definition ValyuLoader_init ::
  "'c valyu_sdk option \<Rightarrow> pyval \<Rightarrow> string \<Rightarrow> pyval \<Rightarrow> pyval \<Rightarrow> bool \<Rightarrow> exn + 'c ValyuLoader" where
  "ValyuLoader_init valyu_module us key rl ee cof =
     (if \<not> truthy us then Inl (ValueError ''At least one URL must be provided.'')
      else
        (case valyu_module of
           None \<Rightarrow>
             Inl (ImportError ''valyu package not found. Please install it with: pip install valyu'')
         | Some sdk \<Rightarrow>
             (case Valyu sdk key of
                Inl e \<Rightarrow> Inl e
              | Inr cl \<Rightarrow>
                  Inr \<lparr>api_key = key,
                       urls = (case us of PList xs \<Rightarrow> xs | _ \<Rightarrow> [us]),
                       response_length = rl,
                       extract_effort = ee,
                       continue_on_failure = cof,
                       client = cl\<rparr>)))"

text \<open>
  What a consumer who exhausts the generator observes, in order: the remote calls (with the
  batch sent), the documents yielded and the log records.
\<close>

datatype event = Request "pyval list" | Yield Document | Log log_level

text \<open>Lines 96 to 103: the metadata of one result.\<close>

definition build_metadata :: "pyval \<Rightarrow> pyval \<Rightarrow> dict" where
  "build_metadata u result =
     (if hasattr result ''metadata'' \<and> truthy (getattr_default result ''metadata'' PNone)
      then (case getattr_default result ''metadata'' PNone of
              PDict kvs \<Rightarrow> dict_update [(''source'', u)] kvs
            | _ \<Rightarrow> [(''source'', u)])
      else [(''source'', u)])"

text \<open>
  Lines 88 to 108: the loop over the results of one successful response. The constructor
  of line 105 may raise; the exception leaves the loop, and the results after it are not
  looked at.
\<close>

fun process_results :: "pyval list \<Rightarrow> event list \<times> exn option" where
  "process_results [] = ([], None)"
| "process_results (result # rest) =
     (let u = getattr_default result ''url'' (PStr '''');
          c = getattr_default result ''content'' (PStr '''')
      in if \<not> truthy c then
           (case process_results rest of (evs, r) \<Rightarrow> (Log WARNING # evs, r))
         else
           (case Document_init c (build_metadata u result) of
              Inl e \<Rightarrow> ([], Some e)
            | Inr d \<Rightarrow> (case process_results rest of (evs, r) \<Rightarrow> (Yield d # evs, r))))"

text \<open>
  Lines 68 to 110: the body of the \<^verbatim>\<open>try\<close> for one batch, from client state \<open>cl\<close>: the
  events, the exception that leaves the body (if any), and the client's next state.
\<close>

definition try_batch ::
  "host \<Rightarrow> 'c valyu_sdk \<Rightarrow> 'c ValyuLoader \<Rightarrow> 'c \<Rightarrow> pyval list
     \<Rightarrow> event list \<times> exn option \<times> 'c" where
  "try_batch h sdk ld cl batch_urls =
     (case contents sdk cl batch_urls (response_length ld) (extract_effort ld) of
        (Inl e, cl') \<Rightarrow> ([Request batch_urls], Some e, cl')
      | (Inr response, cl') \<Rightarrow>
          (case getattr response ''success'' of
             Inl e \<Rightarrow> ([Request batch_urls], Some e, cl')
           | Inr ok \<Rightarrow>
               if \<not> truthy ok then
                 ([Request batch_urls, Log ERROR],
                  if \<not> continue_on_failure ld
                  then Some (Exception (''Valyu API error: ''
                         @ py_str h (getattr_default response ''error'' (PStr ''Unknown error''))))
                  else None,
                  cl')
               else if hasattr response ''results''
                       \<and> truthy (getattr_default response ''results'' PNone) then
                 (case py_iter (getattr_default response ''results'' PNone) of
                    Inl e \<Rightarrow> ([Request batch_urls], Some e, cl')
                  | Inr rs \<Rightarrow>
                      (Request batch_urls # fst (process_results rs),
                       snd (process_results rs), cl'))
               else ([Request batch_urls, Log WARNING], None, cl')))"

text \<open>
  Lines 65 to 116: the \<^verbatim>\<open>for\<close> loop from index \<open>i\<close> on, with the handler of line 112.
  The result is the events and the exception that ends the iteration, if one does.
\<close>

function lazy_load_from ::
  "host \<Rightarrow> 'c valyu_sdk \<Rightarrow> 'c ValyuLoader \<Rightarrow> nat \<Rightarrow> 'c \<Rightarrow> event list \<times> exn option" where
  "lazy_load_from h sdk ld i cl =
     (if i < length (urls ld) then
        (case try_batch h sdk ld cl (take 10 (drop i (urls ld))) of
           (evs, None, cl') \<Rightarrow>
             (case lazy_load_from h sdk ld (i + 10) cl' of
                (evs', r) \<Rightarrow> (evs @ evs', r))
         | (evs, Some e, cl') \<Rightarrow>
             if continue_on_failure ld then
               (case lazy_load_from h sdk ld (i + 10) cl' of
                  (evs', r) \<Rightarrow> (evs @ Log ERROR # evs', r))
             else (evs, Some e))
      else ([], None))"
  by pat_completeness auto
termination
  by (relation "measure (\<lambda>(h, sdk, ld, i, cl). length (urls ld) - i)") auto

definition lazy_load :: "host \<Rightarrow> 'c valyu_sdk \<Rightarrow> 'c ValyuLoader \<Rightarrow> event list \<times> exn option" where
  "lazy_load h sdk ld = lazy_load_from h sdk ld 0 (client ld)"

text \<open>The batches sent to the provider and the documents yielded, in order.\<close>

fun requests :: "event list \<Rightarrow> pyval list list" where
  "requests [] = []"
| "requests (Request b # evs) = b # requests evs"
| "requests (ev # evs) = requests evs"

fun yielded :: "event list \<Rightarrow> Document list" where
  "yielded [] = []"
| "yielded (Yield d # evs) = d # yielded evs"
| "yielded (ev # evs) = yielded evs"

text \<open>
  The loop at the start of its iteration number \<open>k\<close> (counted from 0, so at index
  \<open>10 * k\<close>): the events emitted so far and the client's state, or \<open>None\<close> when the
  iteration has ended before.
\<close>

fun loop_state ::
  "host \<Rightarrow> 'c valyu_sdk \<Rightarrow> 'c ValyuLoader \<Rightarrow> nat \<Rightarrow> (event list \<times> 'c) option" where
  "loop_state h sdk ld 0 = Some ([], client ld)"
| "loop_state h sdk ld (Suc k) =
     (case loop_state h sdk ld k of
        None \<Rightarrow> None
      | Some (evs, cl) \<Rightarrow>
          if 10 * k < length (urls ld) then
            (case try_batch h sdk ld cl (take 10 (drop (10 * k) (urls ld))) of
               (bevs, None, cl') \<Rightarrow> Some (evs @ bevs, cl')
             | (bevs, Some e, cl') \<Rightarrow>
                 if continue_on_failure ld then Some (evs @ bevs @ [Log ERROR], cl') else None)
          else None)"

text \<open>
  Lines 112 to 116 seen from one batch: what follows the events of a batch whose
  \<^verbatim>\<open>try\<close> body ended with \<open>r\<close>, given the events and the outcome \<open>rest\<close> of the loop
  over the later batches.
\<close>

definition after_batch ::
  "bool \<Rightarrow> exn option \<Rightarrow> event list \<times> exn option \<Rightarrow> event list \<times> exn option" where
  "after_batch cof r rest =
     (case r of
        None \<Rightarrow> rest
      | Some e \<Rightarrow> if cof then (Log ERROR # fst rest, snd rest) else ([], Some e))"

section \<open>The batching as the specification words it\<close>

text \<open>
  Consecutive batches of at most \<open>n\<close> elements each, in the original order: every batch
  but the last takes \<open>n\<close> elements.
\<close>

function consecutive_batches :: "nat \<Rightarrow> 'a list \<Rightarrow> 'a list list" where
  "consecutive_batches n xs =
     (if n = 0 \<or> xs = [] then [] else take n xs # consecutive_batches n (drop n xs))"
  by pat_completeness auto
termination
  by (relation "measure (\<lambda>(n, xs). length xs)") auto

section \<open>Test doubles for the concrete runs\<close>

text \<open>
  A provider that answers its calls from a script, one entry per call: the client's state
  is what is left of the script.
\<close>

definition scripted :: "(exn + pyval) list \<Rightarrow> ((exn + pyval) list) valyu_sdk" where
  "scripted script =
     \<lparr>Valyu = (\<lambda>key. Inr script),
      search = (\<lambda>cl query n.
         case cl of [] \<Rightarrow> Inl (ProviderError ''no answer left'') | a # rest \<Rightarrow> a),
      contents = (\<lambda>cl batch rl ee.
         case cl of [] \<Rightarrow> (Inl (ProviderError ''no answer left''), []) | a # rest \<Rightarrow> (a, rest))\<rparr>"

text \<open>A provider whose constructor raises.\<close>

definition unconstructible :: "exn \<Rightarrow> unit valyu_sdk" where
  "unconstructible e =
     \<lparr>Valyu = (\<lambda>key. Inl e),
      search = (\<lambda>cl query n. Inr PNone),
      contents = (\<lambda>cl batch rl ee. (Inr PNone, cl))\<rparr>"

text \<open>
  A host whose \<^verbatim>\<open>str\<close> and \<^verbatim>\<open>json.dumps\<close> know the few values the runs below use, and
  whose filter keeps the results whose url is one of the listed domains.
\<close>

definition sample_str :: "pyval \<Rightarrow> string" where
  "sample_str v =
     (case v of
        PStr s \<Rightarrow> s
      | PNone \<Rightarrow> ''None''
      | PInt i \<Rightarrow> (if i = 7 then ''7'' else ''<int>'')
      | _ \<Rightarrow> ''<value>'')"

definition sample_json_dumps :: "pyval \<Rightarrow> nat \<Rightarrow> exn + string" where
  "sample_json_dumps v indent =
     (if v = PDict [(''a'', PInt 1)] \<and> indent = 2
      then Inr [CHR ''{'', CHR 0x0A, CHR '' '', CHR '' '', CHR 0x22, CHR ''a'', CHR 0x22,
                CHR '':'', CHR '' '', CHR ''1'', CHR 0x0A, CHR ''}'']
      else Inl (TypeError ''Object is not JSON serializable''))"

definition sample_filter :: "dict list \<Rightarrow> string list \<Rightarrow> exn + dict list" where
  "sample_filter results fl =
     Inr (filter (\<lambda>r. \<exists>d \<in> set fl. map_of r ''url'' = Some (PStr d)) results)"

definition sample_host :: host where
  "sample_host =
     \<lparr>py_str = sample_str, json_dumps = sample_json_dumps, get_filtered_results = sample_filter\<rparr>"

text \<open>Answers, results and a loader for the concrete runs.\<close>

definition successful :: "pyval list \<Rightarrow> pyval" where
  "successful rs = PObj [(''success'', PBool True), (''results'', PList rs)]"

definition failed :: pyval where
  "failed = PObj [(''success'', PBool False), (''error'', PStr ''quota exceeded'')]"

definition page :: "string \<Rightarrow> string \<Rightarrow> pyval" where
  "page u c = PObj [(''url'', PStr u), (''content'', PStr c)]"

definition sample_loader ::
  "nat \<Rightarrow> bool \<Rightarrow> (exn + pyval) list \<Rightarrow> ((exn + pyval) list) ValyuLoader" where
  "sample_loader n cof script =
     \<lparr>api_key = ''key'',
      urls = replicate n (PStr ''https://a''),
      response_length = PStr ''max'',
      extract_effort = PStr ''auto'',
      continue_on_failure = cof,
      client = script\<rparr>"

text \<open>A result whose own metadata names another source.\<close>

definition relabelled :: pyval where
  "relabelled =
     PObj [(''url'', PStr ''https://a''), (''content'', PStr ''x''),
           (''metadata'', PDict [(''source'', PStr ''https://elsewhere'')])]"

section \<open>Lemmas on the model\<close>

declare lazy_load_from.simps [simp del]
declare consecutive_batches.simps [simp del]

subsection \<open>Dictionaries\<close>

lemma map_of_replace:
  "map_of (map (\<lambda>kv. if fst kv = k then (k, v) else kv) d) x =
     (if x = k then (if map_of d k = None then None else Some v) else map_of d x)"
  by (induction d) auto

lemma map_of_dict_setitem: "map_of (dict_setitem d k v) = (map_of d)(k \<mapsto> v)"
proof (cases "k \<in> fst ` set d")
  case False
  then have "map_of d k = None" by (simp add: map_of_eq_None_iff)
  with False show ?thesis
    by (auto simp: dict_setitem_def map_add_def fun_eq_iff split: option.splits)
next
  case True
  then have "map_of d k \<noteq> None" by (simp add: map_of_eq_None_iff)
  with True show ?thesis by (simp add: dict_setitem_def fun_eq_iff map_of_replace)
qed

lemma map_of_dict_update: "map_of (dict_update d other) = map_of d ++ map_of (rev other)"
  unfolding dict_update_def
proof (induction other arbitrary: d)
  case Nil
  show ?case by simp
next
  case (Cons kv other)
  show ?case
    by (cases kv) (simp add: Cons.IH map_of_dict_setitem fun_eq_iff map_add_def split: option.splits)
qed

lemma build_metadata_source:
  "map_of (build_metadata u result) ''source'' =
     Some (case getattr_default result ''metadata'' PNone of
             PDict kvs \<Rightarrow> (case map_of (rev kvs) ''source'' of Some v \<Rightarrow> v | None \<Rightarrow> u)
           | _ \<Rightarrow> u)"
  by (auto simp: build_metadata_def map_of_dict_update map_add_def hasattr_def getattr_default_def
      split: pyval.splits option.splits)


subsection \<open>The search adapter on a well-formed answer\<close>

lemma extract_results_entries:
  "snd (extract_results h rs) = map (entry h) (filter has_url rs)"
  by (induction rs) (simp_all add: Let_def entry_def has_url_def)




lemma to_SearchResult_entry:
  "to_SearchResult (entry h result) =
     SearchResult_init (getattr_default result ''url'' (PStr ''''))
       (getattr_default result ''title'' (PStr ''''))
       (snd (convert_content h (raw_data_type result) (raw_content result)))"
  by (simp add: to_SearchResult_def entry_def dict_getitem_def dict_get_def)

lemma to_SearchResults_nth:
  "to_SearchResults kept = Inr srs \<Longrightarrow>
     length srs = length kept \<and> (\<forall>j < length kept. to_SearchResult (kept ! j) = Inr (srs ! j))"
proof (induction kept arbitrary: srs)
  case Nil
  then show ?case by simp
next
  case (Cons a kept)
  from Cons.prems obtain sr srs' where a: "to_SearchResult a = Inr sr"
    and r: "to_SearchResults kept = Inr srs'" and s: "srs = sr # srs'"
    by (auto split: sum.splits)
  from Cons.IH[OF r] a s show ?case by (auto simp: nth_Cons split: nat.splits)
qed

lemma to_SearchResults_raises:
  "a \<in> set kept \<Longrightarrow> to_SearchResult a = Inl e \<Longrightarrow> \<exists>e'. to_SearchResults kept = Inl e'"
  by (induction kept) (auto split: sum.splits)

lemma collect_results_list:
  assumes "lookup_attr response ''results'' = Some (PList rs)"
  shows "collect_results h response = Inr (extract_results h rs)"
  using assms by (cases rs) (simp_all add: collect_results_def hasattr_def getattr_default_def)

lemma apply_filter_none:
  "filter_list = None \<or> filter_list = Some [] \<Longrightarrow>
     apply_filter h filter_list results = Inr results"
  by (auto simp: apply_filter_def)

lemma search_valyu_answered:
  assumes "Valyu sdk key = Inr cl"
      and "search sdk cl query (if count \<noteq> 0 then count else 10) = Inr response"
      and "getattr response ''success'' = Inr ok" and "truthy ok"
      and "lookup_attr response ''results'' = Some (PList rs)"
  shows "search_valyu h (Some sdk) key query count filter_list =
           (case apply_filter h filter_list (map (entry h) (filter has_url rs)) of
              Inl e \<Rightarrow> (INFO # fst (extract_results h rs) @ [ERROR], Inr [])
            | Inr kept \<Rightarrow>
                (case to_SearchResults kept of
                   Inl e \<Rightarrow> (INFO # fst (extract_results h rs) @ [INFO, ERROR], Inr [])
                 | Inr srs \<Rightarrow> (INFO # fst (extract_results h rs) @ [INFO], Inr srs)))"
  using assms(1-4)
  by (simp add: search_valyu_def search_body_def collect_results_list[OF assms(5)]
        extract_results_entries split: sum.splits)

lemma search_valyu_kept:
  assumes "Valyu sdk key = Inr cl"
      and "search sdk cl query (if count \<noteq> 0 then count else 10) = Inr response"
      and "getattr response ''success'' = Inr ok" and "truthy ok"
      and "lookup_attr response ''results'' = Some (PList rs)"
      and "apply_filter h filter_list (map (entry h) (filter has_url rs)) = Inr kept"
      and "to_SearchResults kept = Inr srs"
  shows "snd (search_valyu h (Some sdk) key query count filter_list) = Inr srs"
  by (simp add: search_valyu_answered[OF assms(1-5)] assms(6,7))


lemma search_valyu_handler:
  assumes "snd (search_body h sdk key query count filter_list) = Inl e"
  shows "search_valyu h (Some sdk) key query count filter_list =
           (INFO # fst (search_body h sdk key query count filter_list) @ [ERROR], Inr [])"
  using assms by (auto simp: search_valyu_def split: prod.splits sum.splits)

lemma SearchResult_init_Inr:
  "SearchResult_init l t s = Inr sr \<longleftrightarrow>
     l = PStr (link sr) \<and> validate_optional_str ''title'' t = Inr (title sr)
       \<and> validate_optional_str ''snippet'' s = Inr (snippet sr)"
  by (cases l) (auto simp: SearchResult_init_def split: sum.splits)

lemma entry_kept:
  "result \<in> set rs \<Longrightarrow> has_url result \<Longrightarrow>
     entry h result \<in> set (map (entry h) (filter has_url rs))"
  by simp

lemma returned_for_entry:
  assumes "Valyu sdk key = Inr cl"
      and "search sdk cl query (if count \<noteq> 0 then count else 10) = Inr response"
      and "getattr response ''success'' = Inr ok" and "truthy ok"
      and "lookup_attr response ''results'' = Some (PList rs)"
      and "apply_filter h filter_list (map (entry h) (filter has_url rs)) = Inr kept"
      and "to_SearchResults kept = Inr srs"
      and "j < length kept" and "kept ! j = entry h result"
  shows "snd (search_valyu h (Some sdk) key query count filter_list) = Inr srs
       \<and> getattr_default result ''url'' (PStr '''') = PStr (link (srs ! j))
       \<and> validate_optional_str ''snippet''
            (snd (convert_content h (raw_data_type result) (raw_content result)))
           = Inr (snippet (srs ! j))"
proof -
  from to_SearchResults_nth[OF assms(7)] assms(8,9)
  have "to_SearchResult (entry h result) = Inr (srs ! j)" by auto
  then have "SearchResult_init (getattr_default result ''url'' (PStr ''''))
               (getattr_default result ''title'' (PStr ''''))
               (snd (convert_content h (raw_data_type result) (raw_content result)))
             = Inr (srs ! j)"
    by (simp add: to_SearchResult_entry)
  then show ?thesis
    by (simp add: SearchResult_init_Inr search_valyu_kept[OF assms(1-7)])
qed

lemma unbuildable_entry:
  assumes "Valyu sdk key = Inr cl"
      and "search sdk cl query (if count \<noteq> 0 then count else 10) = Inr response"
      and "getattr response ''success'' = Inr ok" and "truthy ok"
      and "lookup_attr response ''results'' = Some (PList rs)"
      and "apply_filter h filter_list (map (entry h) (filter has_url rs)) = Inr kept"
      and "a \<in> set kept" and "to_SearchResult a = Inl e"
  shows "snd (search_valyu h (Some sdk) key query count filter_list) = Inr []"
proof -
  from to_SearchResults_raises[OF assms(7,8)] obtain e' where "to_SearchResults kept = Inl e'"
    by blast
  then show ?thesis
    by (simp add: search_valyu_answered[OF assms(1-5)] assms(6))
qed

subsection \<open>The loop of the extraction adapter\<close>

lemma requests_append: "requests (a @ b) = requests a @ requests b"
  by (induction a rule: requests.induct) simp_all

lemma yielded_append: "yielded (a @ b) = yielded a @ yielded b"
  by (induction a rule: yielded.induct) simp_all

lemma requests_process_results: "requests (fst (process_results rs)) = []"
  by (induction rs) (auto simp: Let_def split: prod.splits sum.splits)

lemma requests_try_batch: "requests (fst (try_batch h sdk ld cl b)) = [b]"
  by (simp add: try_batch_def requests_process_results split: prod.splits sum.splits)

lemma Document_init_Inr:
  "Document_init c md = Inr d \<longleftrightarrow> (\<exists>s. c = PStr s \<and> d = \<lparr>page_content = s, metadata = md\<rparr>)"
  by (cases c) (auto simp: Document_init_def)

lemma yielded_process_results:
  "d \<in> set (yielded (fst (process_results rs))) \<Longrightarrow>
     \<exists>r \<in> set rs. \<exists>c. c \<noteq> [] \<and> getattr_default r ''content'' (PStr '''') = PStr c \<and>
       d = \<lparr>page_content = c,
            metadata = build_metadata (getattr_default r ''url'' (PStr '''')) r\<rparr>"
proof (induction rs)
  case Nil
  then show ?case by simp
next
  case (Cons a rs)
  show ?case
  proof (cases "truthy (getattr_default a ''content'' (PStr ''''))")
    case False
    with Cons show ?thesis by (auto simp: Let_def split: prod.splits)
  next
    case True
    show ?thesis
    proof (cases "Document_init (getattr_default a ''content'' (PStr ''''))
                    (build_metadata (getattr_default a ''url'' (PStr '''')) a)")
      case (Inl e)
      with True Cons.prems show ?thesis by (simp add: Let_def)
    next
      case (Inr d0)
      then obtain s where s: "getattr_default a ''content'' (PStr '''') = PStr s"
        and d0: "d0 = \<lparr>page_content = s,
                        metadata = build_metadata (getattr_default a ''url'' (PStr '''')) a\<rparr>"
        by (auto simp: Document_init_Inr)
      from True s have "s \<noteq> []" by simp
      with Cons True Inr s d0 show ?thesis
        by (auto simp: Let_def split: prod.splits)
    qed
  qed
qed

lemma process_results_append:
  "process_results (rs @ rs') =
     (case snd (process_results rs) of
        None \<Rightarrow> (fst (process_results rs) @ fst (process_results rs'), snd (process_results rs'))
      | Some e \<Rightarrow> (fst (process_results rs), Some e))"
  by (induction rs) (auto simp: Let_def split: prod.splits sum.splits option.splits)


lemma process_results_yield:
  assumes "getattr_default result ''content'' (PStr '''') = PStr c" and "c \<noteq> []"
  shows "process_results (result # rs') =
           (Yield \<lparr>page_content = c,
                   metadata = build_metadata (getattr_default result ''url'' (PStr '''')) result\<rparr>
              # fst (process_results rs'), snd (process_results rs'))"
  using assms by (simp add: Let_def Document_init_def split: prod.splits)

lemma yielded_try_batch:
  assumes "d \<in> set (yielded (fst (try_batch h sdk ld cl b)))"
  shows "\<exists>response cl' ok rs r c.
           contents sdk cl b (response_length ld) (extract_effort ld) = (Inr response, cl')
         \<and> getattr response ''success'' = Inr ok \<and> truthy ok
         \<and> py_iter (getattr_default response ''results'' PNone) = Inr rs \<and> r \<in> set rs
         \<and> c \<noteq> [] \<and> getattr_default r ''content'' (PStr '''') = PStr c
         \<and> d = \<lparr>page_content = c,
                 metadata = build_metadata (getattr_default r ''url'' (PStr '''')) r\<rparr>"
proof -
  obtain a cl' where ct: "contents sdk cl b (response_length ld) (extract_effort ld) = (a, cl')"
    by (cases "contents sdk cl b (response_length ld) (extract_effort ld)") auto
  from assms ct obtain response where a: "a = Inr response"
    by (cases a) (auto simp: try_batch_def)
  from assms ct a obtain ok where ok: "getattr response ''success'' = Inr ok"
    by (cases "getattr response ''success''") (auto simp: try_batch_def)
  from assms ct a ok have t: "truthy ok"
    by (auto simp: try_batch_def split: if_splits)
  from assms ct a ok t obtain rs where
    rs: "py_iter (getattr_default response ''results'' PNone) = Inr rs"
    and d: "d \<in> set (yielded (fst (process_results rs)))"
    by (auto simp: try_batch_def split: if_splits sum.splits)
  from yielded_process_results[OF d] ct a ok t rs show ?thesis by blast
qed

lemma try_batch_failed:
  assumes "contents sdk cl b (response_length ld) (extract_effort ld) = (Inr response, cl')"
      and "getattr response ''success'' = Inr ok" and "\<not> truthy ok"
  shows "try_batch h sdk ld cl b =
           ([Request b, Log ERROR],
            if continue_on_failure ld then None
            else Some (Exception (''Valyu API error: ''
                   @ py_str h (getattr_default response ''error'' (PStr ''Unknown error'')))),
            cl')"
  using assms by (simp add: try_batch_def)

lemma try_batch_success:
  assumes "contents sdk cl b (response_length ld) (extract_effort ld) = (Inr response, cl')"
      and "getattr response ''success'' = Inr ok" and "truthy ok"
      and "lookup_attr response ''results'' = Some (PList rs)" and "rs \<noteq> []"
  shows "try_batch h sdk ld cl b
           = (Request b # fst (process_results rs), snd (process_results rs), cl')"
  using assms by (simp add: try_batch_def hasattr_def getattr_default_def)

lemma lazy_load_from_end:
  "\<not> i < length (urls ld) \<Longrightarrow> lazy_load_from h sdk ld i cl = ([], None)"
  by (simp add: lazy_load_from.simps)

lemma lazy_load_from_step:
  assumes "i < length (urls ld)"
      and "try_batch h sdk ld cl (take 10 (drop i (urls ld))) = (evs, r, cl')"
      and "r = None \<or> continue_on_failure ld"
  shows "lazy_load_from h sdk ld i cl =
           (evs @ (if r = None then [] else [Log ERROR])
              @ fst (lazy_load_from h sdk ld (i + 10) cl'),
            snd (lazy_load_from h sdk ld (i + 10) cl'))"
  using assms
  by (subst lazy_load_from.simps) (auto split: prod.splits option.splits)

lemma lazy_load_from_raise:
  assumes "i < length (urls ld)"
      and "try_batch h sdk ld cl (take 10 (drop i (urls ld))) = (evs, Some e, cl')"
      and "\<not> continue_on_failure ld"
  shows "lazy_load_from h sdk ld i cl = (evs, Some e)"
  using assms
  by (subst lazy_load_from.simps) (auto split: prod.splits option.splits)

text \<open>The three ways an iteration of the loop goes, as an induction rule.\<close>

lemma lazy_load_from_cases [case_names finished continue raise]:
  assumes fin: "\<And>i cl. \<not> i < length (urls ld) \<Longrightarrow> P i cl ([], None)"
      and cont: "\<And>i cl evs r cl'.
           i < length (urls ld) \<Longrightarrow>
           try_batch h sdk ld cl (take 10 (drop i (urls ld))) = (evs, r, cl') \<Longrightarrow>
           r = None \<or> continue_on_failure ld \<Longrightarrow>
           P (i + 10) cl' (lazy_load_from h sdk ld (i + 10) cl') \<Longrightarrow>
           P i cl (evs @ (if r = None then [] else [Log ERROR])
                     @ fst (lazy_load_from h sdk ld (i + 10) cl'),
                   snd (lazy_load_from h sdk ld (i + 10) cl'))"
      and stop: "\<And>i cl evs e cl'.
           i < length (urls ld) \<Longrightarrow>
           try_batch h sdk ld cl (take 10 (drop i (urls ld))) = (evs, Some e, cl') \<Longrightarrow>
           \<not> continue_on_failure ld \<Longrightarrow>
           P i cl (evs, Some e)"
  shows "P i cl (lazy_load_from h sdk ld i cl)"
proof (induction "length (urls ld) - i" arbitrary: i cl rule: less_induct)
  case less
  show ?case
  proof (cases "i < length (urls ld)")
    case False
    then show ?thesis by (simp add: lazy_load_from_end fin)
  next
    case True
    obtain evs r cl' where tb: "try_batch h sdk ld cl (take 10 (drop i (urls ld))) = (evs, r, cl')"
      by (metis prod_cases3)
    show ?thesis
    proof (cases "r = None \<or> continue_on_failure ld")
      case go: True
      have "length (urls ld) - (i + 10) < length (urls ld) - i" using True by arith
      then have "P (i + 10) cl' (lazy_load_from h sdk ld (i + 10) cl')" by (rule less)
      from cont[OF True tb go this] show ?thesis
        by (simp add: lazy_load_from_step[OF True tb go])
    next
      case False
      then obtain e where r: "r = Some e" and c: "\<not> continue_on_failure ld" by auto
      from stop[OF True tb[unfolded r] c] show ?thesis
        by (simp add: lazy_load_from_raise[OF True tb[unfolded r] c])
    qed
  qed
qed

lemma continue_never_raises:
  "continue_on_failure ld \<Longrightarrow> snd (lazy_load_from h sdk ld i cl) = None"
  by (rule lazy_load_from_cases[where P = "\<lambda>i cl res. snd res = None"]) simp_all

lemma consecutive_batches_step:
  "i < length xs \<Longrightarrow>
     consecutive_batches 10 (drop i xs) = take 10 (drop i xs) # consecutive_batches 10 (drop (i + 10) xs)"
  by (subst consecutive_batches.simps) (simp add: add.commute)

lemma requests_prefix:
  "\<exists>rest. consecutive_batches 10 (drop i (urls ld))
            = requests (fst (lazy_load_from h sdk ld i cl)) @ rest"
proof (rule lazy_load_from_cases[where P = "\<lambda>i cl res.
         \<exists>rest. consecutive_batches 10 (drop i (urls ld)) = requests (fst res) @ rest"])
  fix i cl evs e cl'
  assume "i < length (urls ld)"
     and tb: "try_batch h sdk ld cl (take 10 (drop i (urls ld))) = (evs, Some e, cl')"
  moreover have "requests evs = [take 10 (drop i (urls ld))]"
    using requests_try_batch[of h sdk ld cl "take 10 (drop i (urls ld))"] tb by simp
  ultimately show "\<exists>rest. consecutive_batches 10 (drop i (urls ld))
                      = requests (fst (evs, Some e)) @ rest"
    by (simp add: consecutive_batches_step)
next
  fix i cl evs r cl'
  assume "i < length (urls ld)"
     and tb: "try_batch h sdk ld cl (take 10 (drop i (urls ld))) = (evs, r, cl')"
     and "\<exists>rest. consecutive_batches 10 (drop (i + 10) (urls ld))
            = requests (fst (lazy_load_from h sdk ld (i + 10) cl')) @ rest"
  moreover have "requests evs = [take 10 (drop i (urls ld))]"
    using requests_try_batch[of h sdk ld cl "take 10 (drop i (urls ld))"] tb by simp
  ultimately show "\<exists>rest. consecutive_batches 10 (drop i (urls ld))
       = requests (fst (evs @ (if r = None then [] else [Log ERROR])
                          @ fst (lazy_load_from h sdk ld (i + 10) cl'),
                        snd (lazy_load_from h sdk ld (i + 10) cl'))) @ rest"
    by (auto simp: consecutive_batches_step requests_append)
qed simp

lemma requests_complete:
  "snd (lazy_load_from h sdk ld i cl) = None \<longrightarrow>
     requests (fst (lazy_load_from h sdk ld i cl)) = consecutive_batches 10 (drop i (urls ld))"
proof (rule lazy_load_from_cases[where P = "\<lambda>i cl res.
         snd res = None \<longrightarrow> requests (fst res) = consecutive_batches 10 (drop i (urls ld))"])
  fix i cl
  assume "\<not> i < length (urls ld)"
  then show "snd ([], None) = None \<longrightarrow>
               requests (fst ([], None)) = consecutive_batches 10 (drop i (urls ld))"
    by (simp add: consecutive_batches.simps)
next
  fix i cl evs r cl'
  assume "i < length (urls ld)"
     and tb: "try_batch h sdk ld cl (take 10 (drop i (urls ld))) = (evs, r, cl')"
     and "snd (lazy_load_from h sdk ld (i + 10) cl') = None \<longrightarrow>
            requests (fst (lazy_load_from h sdk ld (i + 10) cl'))
              = consecutive_batches 10 (drop (i + 10) (urls ld))"
  moreover have "requests evs = [take 10 (drop i (urls ld))]"
    using requests_try_batch[of h sdk ld cl "take 10 (drop i (urls ld))"] tb by simp
  ultimately show "snd (evs @ (if r = None then [] else [Log ERROR])
                          @ fst (lazy_load_from h sdk ld (i + 10) cl'),
                        snd (lazy_load_from h sdk ld (i + 10) cl')) = None \<longrightarrow>
       requests (fst (evs @ (if r = None then [] else [Log ERROR])
                          @ fst (lazy_load_from h sdk ld (i + 10) cl'),
                        snd (lazy_load_from h sdk ld (i + 10) cl')))
         = consecutive_batches 10 (drop i (urls ld))"
    by (auto simp: consecutive_batches_step requests_append)
qed simp_all

lemma loop_state_lazy_load:
  "loop_state h sdk ld k = Some (evs, cl) \<Longrightarrow>
     lazy_load h sdk ld = (evs @ fst (lazy_load_from h sdk ld (10 * k) cl),
                           snd (lazy_load_from h sdk ld (10 * k) cl))"
proof (induction k arbitrary: evs cl)
  case 0
  then show ?case by (simp add: lazy_load_def)
next
  case (Suc k)
  from Suc.prems obtain evs0 cl0 where st: "loop_state h sdk ld k = Some (evs0, cl0)"
    by (auto split: option.splits)
  from Suc.prems st have lt: "10 * k < length (urls ld)"
    by (auto split: if_splits)
  obtain bevs r cl' where tb:
    "try_batch h sdk ld cl0 (take 10 (drop (10 * k) (urls ld))) = (bevs, r, cl')"
    by (metis prod_cases3)
  from Suc.prems st lt tb have go: "r = None \<or> continue_on_failure ld"
    and evs: "evs = evs0 @ bevs @ (if r = None then [] else [Log ERROR])" and cl: "cl = cl'"
    by (auto split: option.splits if_splits)
  have "10 * Suc k = 10 * k + 10" by simp
  then show ?case
    using Suc.IH[OF st] lazy_load_from_step[OF lt tb go] evs cl by (simp add: add.commute)
qed

subsection \<open>The batches of the specification\<close>

lemma concat_consecutive_batches: "0 < n \<Longrightarrow> concat (consecutive_batches n xs) = xs"
  by (induction n xs rule: consecutive_batches.induct)
     (subst consecutive_batches.simps, simp)

lemma length_consecutive_batches:
  "b \<in> set (consecutive_batches n xs) \<Longrightarrow> 0 < length b \<and> length b \<le> n"
proof (induction n xs rule: consecutive_batches.induct)
  case (1 n xs)
  from "1.prems" have ne: "\<not> (n = 0 \<or> xs = [])"
    by (subst (asm) consecutive_batches.simps) (auto split: if_splits)
  with "1.prems" have "b = take n xs \<or> b \<in> set (consecutive_batches n (drop n xs))"
    by (subst (asm) consecutive_batches.simps) auto
  with "1.IH"[OF ne] ne show ?case by auto
qed

lemma consecutive_batches_25:
  assumes "length xs = 25"
  shows "map length (consecutive_batches 10 xs) = [10, 10, 5]"
proof -
  have "consecutive_batches 10 xs
          = [take 10 xs, take 10 (drop 10 xs), take 10 (drop 20 xs)]"
    using assms
    by (subst consecutive_batches.simps, simp add: length_0_conv[symmetric] del: length_0_conv)+
  with assms show ?thesis by simp
qed

lemma lazy_load_from_after:
  assumes "i < length (urls ld)"
      and "try_batch h sdk ld cl (take 10 (drop i (urls ld))) = (evs, r, cl')"
  shows "lazy_load_from h sdk ld i cl =
           (evs @ fst (after_batch (continue_on_failure ld) r
                         (lazy_load_from h sdk ld (i + 10) cl')),
            snd (after_batch (continue_on_failure ld) r
                   (lazy_load_from h sdk ld (i + 10) cl')))"
proof (cases "r = None \<or> continue_on_failure ld")
  case True
  from lazy_load_from_step[OF assms True] True show ?thesis
    by (auto simp: after_batch_def split: option.splits)
next
  case False
  then obtain e where r: "r = Some e" and c: "\<not> continue_on_failure ld" by auto
  from lazy_load_from_raise[OF assms(1) assms(2)[unfolded r] c] r c show ?thesis
    by (simp add: after_batch_def)
qed

lemma reached_answer:
  assumes "loop_state h sdk ld k = Some (evs, cl)"
      and "10 * k < length (urls ld)"
      and "contents sdk cl (take 10 (drop (10 * k) (urls ld))) (response_length ld)
             (extract_effort ld) = (Inr response, cl')"
      and "getattr response ''success'' = Inr ok" and "truthy ok"
      and "lookup_attr response ''results'' = Some (PList rs)" and "rs \<noteq> []"
  shows "lazy_load h sdk ld =
           (evs @ Request (take 10 (drop (10 * k) (urls ld))) # fst (process_results rs)
              @ fst (after_batch (continue_on_failure ld) (snd (process_results rs))
                       (lazy_load_from h sdk ld (10 * k + 10) cl')),
            snd (after_batch (continue_on_failure ld) (snd (process_results rs))
                   (lazy_load_from h sdk ld (10 * k + 10) cl')))"
  using loop_state_lazy_load[OF assms(1)]
        lazy_load_from_after[OF assms(2) try_batch_success[OF assms(3-7), of h]]
  by simp

lemma loop_state_Suc:
  assumes "loop_state h sdk ld k = Some (evs, cl)"
      and "10 * k < length (urls ld)"
      and "try_batch h sdk ld cl (take 10 (drop (10 * k) (urls ld))) = (bevs, r, cl')"
      and "r = None \<or> continue_on_failure ld"
  shows "loop_state h sdk ld (Suc k)
           = Some (evs @ bevs @ (if r = None then [] else [Log ERROR]), cl')"
  using assms by (auto split: option.splits)

lemma yielded_reached:
  assumes "loop_state h sdk ld k = Some (evs, cl)"
      and "d \<in> set (yielded (fst (lazy_load_from h sdk ld (10 * k) cl)))"
  shows "\<exists>k' evs' cl0 response cl' ok rs r c.
           loop_state h sdk ld k' = Some (evs', cl0) \<and> 10 * k' < length (urls ld)
         \<and> contents sdk cl0 (take 10 (drop (10 * k') (urls ld))) (response_length ld)
               (extract_effort ld) = (Inr response, cl')
         \<and> getattr response ''success'' = Inr ok \<and> truthy ok
         \<and> py_iter (getattr_default response ''results'' PNone) = Inr rs \<and> r \<in> set rs
         \<and> c \<noteq> [] \<and> getattr_default r ''content'' (PStr '''') = PStr c
         \<and> d = \<lparr>page_content = c,
                 metadata = build_metadata (getattr_default r ''url'' (PStr '''')) r\<rparr>"
  using assms
proof (induction "length (urls ld) - 10 * k" arbitrary: k evs cl rule: less_induct)
  case less
  show ?case
  proof (cases "10 * k < length (urls ld)")
    case False
    with less.prems(2) show ?thesis by (simp add: lazy_load_from_end)
  next
    case True
    obtain bevs r cl' where
      tb: "try_batch h sdk ld cl (take 10 (drop (10 * k) (urls ld))) = (bevs, r, cl')"
      by (metis prod_cases3)
    show ?thesis
    proof (cases "d \<in> set (yielded bevs)")
      case here: True
      then have "d \<in> set (yielded (fst (try_batch h sdk ld cl (take 10 (drop (10 * k) (urls ld))))))"
        by (simp add: tb)
      from yielded_try_batch[OF this] less.prems(1) True show ?thesis by blast
    next
      case later: False
      have go: "r = None \<or> continue_on_failure ld"
      proof (rule ccontr)
        assume "\<not> (r = None \<or> continue_on_failure ld)"
        then obtain e where "r = Some e" and "\<not> continue_on_failure ld" by auto
        with lazy_load_from_raise[OF True] tb less.prems(2) later show False by simp
      qed
      from lazy_load_from_step[OF True tb go] less.prems(2) later
      have d: "d \<in> set (yielded (fst (lazy_load_from h sdk ld (10 * Suc k) cl')))"
        by (auto simp: yielded_append add.commute split: if_splits)
      have "length (urls ld) - 10 * Suc k < length (urls ld) - 10 * k"
        using True by simp
      from less.hyps[OF this loop_state_Suc[OF less.prems(1) True tb go] d]
      show ?thesis .
    qed
  qed
qed

section \<open>The claims on the extraction adapter\<close>

subsection \<open>Construction\<close>

text \<open>
  C6: for every API key and every tuning parameter, and whatever the import of the vendor
  package does, constructing the loader with an empty URL list fails with the
  \<^verbatim>\<open>ValueError\<close> of line 47; so it never succeeds.
\<close>

theorem empty_url_list_rejected:
  "ValyuLoader_init valyu_module (PList []) key rl ee cof
     = Inl (ValueError ''At least one URL must be provided.'')"
  by (simp add: ValyuLoader_init_def)

text \<open>
  C9: the constructor also takes a single non-empty URL string: when the vendor client
  can be built, construction succeeds, the string is wrapped into a one-element list, and
  the loader sends exactly one batch, which holds exactly that URL.
\<close>

theorem single_url_string_wrapped:
  assumes "s \<noteq> []" and "Valyu sdk key = Inr cl"
  shows "\<exists>ld. ValyuLoader_init (Some sdk) (PStr s) key rl ee cof = Inr ld
              \<and> urls ld = [PStr s]
              \<and> requests (fst (lazy_load h sdk ld)) = [[PStr s]]"
proof -
  define ld where "ld = \<lparr>api_key = key, urls = [PStr s], response_length = rl,
    extract_effort = ee, continue_on_failure = cof, client = cl\<rparr>"
  have init: "ValyuLoader_init (Some sdk) (PStr s) key rl ee cof = Inr ld"
    using assms by (simp add: ValyuLoader_init_def ld_def)
  have u: "urls ld = [PStr s]" by (simp add: ld_def)
  have lt: "0 < length (urls ld)" by (simp add: u)
  obtain evs r cl' where tb: "try_batch h sdk ld cl (take 10 (drop 0 (urls ld))) = (evs, r, cl')"
    by (metis prod_cases3)
  have rq: "requests evs = [[PStr s]]"
    using requests_try_batch[of h sdk ld cl "take 10 (drop 0 (urls ld))"] tb by (simp add: u)
  have fin: "lazy_load_from h sdk ld (0 + 10) cl' = ([], None)"
    by (rule lazy_load_from_end) (simp add: u)
  have "requests (fst (lazy_load_from h sdk ld 0 cl)) = [[PStr s]]"
  proof (cases "r = None \<or> continue_on_failure ld")
    case True
    from lazy_load_from_step[OF lt tb True] fin rq show ?thesis
      by (simp add: requests_append)
  next
    case False
    then obtain e where "r = Some e" and "\<not> continue_on_failure ld" by auto
    with lazy_load_from_raise[OF lt] tb rq show ?thesis by simp
  qed
  moreover have "client ld = cl" by (simp add: ld_def)
  ultimately have "requests (fst (lazy_load h sdk ld)) = [[PStr s]]"
    by (simp add: lazy_load_def)
  with init u show ?thesis by blast
qed

theorem single_url_string_wrapped_witness:
  "\<exists>ld. ValyuLoader_init (Some (scripted [Inr (successful [page ''https://a'' ''x''])]))
            (PStr ''https://a'') ''key'' (PStr ''max'') (PStr ''auto'') True = Inr ld
        \<and> urls ld = [PStr ''https://a'']
        \<and> requests (fst (lazy_load sample_host
              (scripted [Inr (successful [page ''https://a'' ''x''])]) ld)) = [[PStr ''https://a'']]"
proof -
  have "''https://a'' \<noteq> []" by simp
  moreover have "Valyu (scripted [Inr (successful [page ''https://a'' ''x''])]) ''key''
                   = Inr [Inr (successful [page ''https://a'' ''x''])]"
    by (simp add: scripted_def)
  ultimately show ?thesis by (rule single_url_string_wrapped)
qed

subsection \<open>Batching\<close>

text \<open>
  C5: the loader cuts the URL list into consecutive batches of at most 10 URLs, in the
  original order, and sends one remote call per batch. The calls sent are always the first
  batches of that partition, each once and in order; when the iteration runs to its end
  (as it always does with \<^verbatim>\<open>continue_on_failure\<close>), they are all of them: their
  concatenation is the URL list, none is empty or longer than 10, and a list of 25 URLs
  gives exactly three calls of sizes 10, 10 and 5.
\<close>

theorem one_call_per_batch:
  "(\<exists>rest. consecutive_batches 10 (urls ld) = requests (fst (lazy_load h sdk ld)) @ rest)
   \<and> (continue_on_failure ld \<or> snd (lazy_load h sdk ld) = None \<longrightarrow>
        requests (fst (lazy_load h sdk ld)) = consecutive_batches 10 (urls ld)
        \<and> concat (requests (fst (lazy_load h sdk ld))) = urls ld
        \<and> (\<forall>b \<in> set (requests (fst (lazy_load h sdk ld))). 0 < length b \<and> length b \<le> 10)
        \<and> (length (urls ld) = 25 \<longrightarrow>
             map length (requests (fst (lazy_load h sdk ld))) = [10, 10, 5]))"
proof (intro conjI impI)
  show "\<exists>rest. consecutive_batches 10 (urls ld) = requests (fst (lazy_load h sdk ld)) @ rest"
    using requests_prefix[of 0 ld h sdk "client ld"] by (simp add: lazy_load_def)
next
  assume "continue_on_failure ld \<or> snd (lazy_load h sdk ld) = None"
  then have "snd (lazy_load h sdk ld) = None"
    by (auto simp: lazy_load_def continue_never_raises)
  then have eq: "requests (fst (lazy_load h sdk ld)) = consecutive_batches 10 (urls ld)"
    using requests_complete[of h sdk ld 0 "client ld"] by (simp add: lazy_load_def)
  show "requests (fst (lazy_load h sdk ld)) = consecutive_batches 10 (urls ld)"
    by (rule eq)
  show "concat (requests (fst (lazy_load h sdk ld))) = urls ld"
    by (simp add: eq concat_consecutive_batches)
  show "\<forall>b \<in> set (requests (fst (lazy_load h sdk ld))). 0 < length b \<and> length b \<le> 10"
    unfolding eq using length_consecutive_batches[of _ 10 "urls ld"] by blast
  show "map length (requests (fst (lazy_load h sdk ld))) = [10, 10, 5]"
    if "length (urls ld) = 25"
    using that by (simp add: eq consecutive_batches_25)
qed

theorem one_call_per_batch_witness:
  "map length (requests (fst (lazy_load sample_host (scripted [])
      (sample_loader 25 True [Inr failed, Inl (ProviderError ''timeout'')])))) = [10, 10, 5]"
proof -
  have "continue_on_failure (sample_loader 25 True [Inr failed, Inl (ProviderError ''timeout'')])
        \<or> snd (lazy_load sample_host (scripted [])
             (sample_loader 25 True [Inr failed, Inl (ProviderError ''timeout'')])) = None"
    by (simp add: sample_loader_def)
  moreover have "length (urls (sample_loader 25 True [Inr failed, Inl (ProviderError ''timeout'')])) = 25"
    by (simp add: sample_loader_def)
  ultimately show ?thesis using one_call_per_batch by blast
qed

subsection \<open>Failed batches\<close>

text \<open>
  C4: let the loop start its iteration \<open>k\<close> with the events \<open>evs\<close> behind it, and let the
  provider answer that batch with a response whose \<^verbatim>\<open>success\<close> is false. With
  \<^verbatim>\<open>continue_on_failure\<close> the batch adds its request and an error record to the events
  and no document, the loop goes on with the next batch, the iteration ends without an
  exception and every batch of the list is requested. Without it the iteration raises the
  exception of line 83 right there: what was yielded before stays yielded, and no further
  batch is requested.
\<close>

theorem failed_batch_policy:
  assumes "loop_state h sdk ld k = Some (evs, cl)"
      and "10 * k < length (urls ld)"
      and "contents sdk cl (take 10 (drop (10 * k) (urls ld))) (response_length ld)
             (extract_effort ld) = (Inr response, cl')"
      and "getattr response ''success'' = Inr ok"
      and "\<not> truthy ok"
  shows "(continue_on_failure ld \<longrightarrow>
            lazy_load h sdk ld
              = (evs @ [Request (take 10 (drop (10 * k) (urls ld))), Log ERROR]
                   @ fst (lazy_load_from h sdk ld (10 * k + 10) cl'), None)
          \<and> loop_state h sdk ld (Suc k)
              = Some (evs @ [Request (take 10 (drop (10 * k) (urls ld))), Log ERROR], cl')
          \<and> requests (fst (lazy_load h sdk ld)) = consecutive_batches 10 (urls ld))
       \<and> (\<not> continue_on_failure ld \<longrightarrow>
            lazy_load h sdk ld
              = (evs @ [Request (take 10 (drop (10 * k) (urls ld))), Log ERROR],
                 Some (Exception (''Valyu API error: ''
                   @ py_str h (getattr_default response ''error'' (PStr ''Unknown error'')))))
          \<and> yielded (fst (lazy_load h sdk ld)) = yielded evs
          \<and> requests (fst (lazy_load h sdk ld))
              = requests evs @ [take 10 (drop (10 * k) (urls ld))])"
proof (intro conjI impI)
  let ?b = "take 10 (drop (10 * k) (urls ld))"
  note tb = try_batch_failed[OF assms(3-5), of h]
  note whole = loop_state_lazy_load[OF assms(1)]
  {
    assume c: "continue_on_failure ld"
    from tb c have tb': "try_batch h sdk ld cl ?b = ([Request ?b, Log ERROR], None, cl')"
      by simp
    have "lazy_load_from h sdk ld (10 * k) cl
            = ([Request ?b, Log ERROR] @ fst (lazy_load_from h sdk ld (10 * k + 10) cl'),
               snd (lazy_load_from h sdk ld (10 * k + 10) cl'))"
      using lazy_load_from_step[OF assms(2) tb'] by simp
    with whole continue_never_raises[OF c]
    show "lazy_load h sdk ld
            = (evs @ [Request ?b, Log ERROR] @ fst (lazy_load_from h sdk ld (10 * k + 10) cl'),
               None)"
      by simp
    from assms(1,2) tb' show "loop_state h sdk ld (Suc k) = Some (evs @ [Request ?b, Log ERROR], cl')"
      by simp
    from continue_never_raises[OF c, of h sdk 0 "client ld"]
    show "requests (fst (lazy_load h sdk ld)) = consecutive_batches 10 (urls ld)"
      using requests_complete[of h sdk ld 0 "client ld"] by (simp add: lazy_load_def)
  }
  {
    assume c: "\<not> continue_on_failure ld"
    let ?e = "Exception (''Valyu API error: ''
                @ py_str h (getattr_default response ''error'' (PStr ''Unknown error'')))"
    from tb c have tb': "try_batch h sdk ld cl ?b = ([Request ?b, Log ERROR], Some ?e, cl')"
      by simp
    from lazy_load_from_raise[OF assms(2) tb' c] whole
    show raised: "lazy_load h sdk ld = (evs @ [Request ?b, Log ERROR], Some ?e)"
      by simp
    show "yielded (fst (lazy_load h sdk ld)) = yielded evs"
      by (simp add: raised yielded_append)
    show "requests (fst (lazy_load h sdk ld)) = requests evs @ [?b]"
      by (simp add: raised requests_append)
  }
qed

theorem failed_batch_policy_witness:
  "lazy_load sample_host (scripted [])
     (sample_loader 25 False [Inr (successful [page ''https://a'' ''x'']), Inr failed,
        Inr (successful [page ''https://a'' ''x''])])
   = ([Request (replicate 10 (PStr ''https://a'')),
       Yield \<lparr>page_content = ''x'', metadata = [(''source'', PStr ''https://a'')]\<rparr>,
       Request (replicate 10 (PStr ''https://a'')),
       Log ERROR],
      Some (Exception ''Valyu API error: quota exceeded''))
   \<and> requests (fst (lazy_load sample_host (scripted [])
     (sample_loader 25 True [Inr (successful [page ''https://a'' ''x'']), Inr failed,
        Inr (successful [page ''https://a'' ''x''])])))
   = consecutive_batches 10 (replicate 25 (PStr ''https://a''))"
proof -
  let ?script = "[Inr (successful [page ''https://a'' ''x'']), Inr failed,
                  Inr (successful [page ''https://a'' ''x''])]"
  let ?evs = "[Request (replicate 10 (PStr ''https://a'')),
               Yield \<lparr>page_content = ''x'', metadata = [(''source'', PStr ''https://a'')]\<rparr>]"
  let ?cl = "[Inr failed, Inr (successful [page ''https://a'' ''x''])]"
  have st: "loop_state sample_host (scripted []) (sample_loader 25 cof ?script) (Suc 0)
              = Some (?evs, ?cl)" for cof
    by (simp add: sample_loader_def scripted_def try_batch_def successful_def page_def
          getattr_def hasattr_def getattr_default_def build_metadata_def Let_def
          Document_init_def)
  have lt: "10 * Suc 0 < length (urls (sample_loader 25 cof ?script))" for cof
    by (simp add: sample_loader_def)
  have ct: "contents (scripted []) ?cl
              (take 10 (drop (10 * Suc 0) (urls (sample_loader 25 cof ?script))))
              (response_length (sample_loader 25 cof ?script))
              (extract_effort (sample_loader 25 cof ?script))
            = (Inr failed, [Inr (successful [page ''https://a'' ''x''])])" for cof
    by (simp add: scripted_def)
  have gs: "getattr failed ''success'' = Inr (PBool False)"
    by (simp add: failed_def getattr_def)
  have nt: "\<not> truthy (PBool False)" by simp
  have stop: "\<not> continue_on_failure (sample_loader 25 False ?script)"
    and go: "continue_on_failure (sample_loader 25 True ?script)"
    by (simp_all add: sample_loader_def)
  note raised = failed_batch_policy[OF st lt ct gs nt, of False, THEN conjunct2, rule_format,
                  OF stop, THEN conjunct1]
  note all_sent = failed_batch_policy[OF st lt ct gs nt, of True, THEN conjunct1, rule_format,
                    OF go, THEN conjunct2, THEN conjunct2]
  have "urls (sample_loader 25 True ?script) = replicate 25 (PStr ''https://a'')"
    by (simp add: sample_loader_def)
  with all_sent have "requests (fst (lazy_load sample_host (scripted [])
                        (sample_loader 25 True ?script)))
                      = consecutive_batches 10 (replicate 25 (PStr ''https://a''))"
    by simp
  moreover from raised have "lazy_load sample_host (scripted []) (sample_loader 25 False ?script)
      = (?evs @ [Request (replicate 10 (PStr ''https://a'')), Log ERROR],
         Some (Exception ''Valyu API error: quota exceeded''))"
    by (simp add: sample_loader_def sample_host_def sample_str_def failed_def
          getattr_default_def)
  ultimately show ?thesis by simp
qed

subsection \<open>The documents\<close>



text \<open>
  C1, as the code has it: every document the loader yields comes from one result \<open>r\<close> of
  a successful response that the provider gave to a batch the loop got to; its content is
  that result's content and its metadata is built from that result and binds
  \<^verbatim>\<open>"source"\<close>. The value bound is that result's url, unless the result's own metadata
  is a mapping with a \<^verbatim>\<open>"source"\<close> key: then the merge of line 103 replaces the url with
  the provider's value (\<open>map_of (rev kvs)\<close> reads the items of the provider's
  mapping as the dictionary does, a later item winning). Conversely, a result with
  non-empty string content that the loop gets to has its document among those yielded.
\<close>

theorem source_key_in_metadata:
  "(\<forall>d \<in> set (yielded (fst (lazy_load h sdk ld))).
      \<exists>k evs cl response cl' ok rs r c.
        loop_state h sdk ld k = Some (evs, cl) \<and> 10 * k < length (urls ld)
      \<and> contents sdk cl (take 10 (drop (10 * k) (urls ld))) (response_length ld)
            (extract_effort ld) = (Inr response, cl')
      \<and> getattr response ''success'' = Inr ok \<and> truthy ok
      \<and> py_iter (getattr_default response ''results'' PNone) = Inr rs \<and> r \<in> set rs
      \<and> c \<noteq> [] \<and> getattr_default r ''content'' (PStr '''') = PStr c
      \<and> d = \<lparr>page_content = c,
              metadata = build_metadata (getattr_default r ''url'' (PStr '''')) r\<rparr>
      \<and> map_of (metadata d) ''source'' =
            Some (case getattr_default r ''metadata'' PNone of
                    PDict kvs \<Rightarrow>
                      (case map_of (rev kvs) ''source'' of
                         Some v \<Rightarrow> v
                       | None \<Rightarrow> getattr_default r ''url'' (PStr ''''))
                  | _ \<Rightarrow> getattr_default r ''url'' (PStr '''')))
   \<and> (loop_state h sdk ld k = Some (evs, cl) \<and> 10 * k < length (urls ld)
        \<and> contents sdk cl (take 10 (drop (10 * k) (urls ld))) (response_length ld)
              (extract_effort ld) = (Inr response, cl')
        \<and> getattr response ''success'' = Inr ok \<and> truthy ok
        \<and> lookup_attr response ''results'' = Some (PList (rs @ result # rs'))
        \<and> snd (process_results rs) = None
        \<and> getattr_default result ''content'' (PStr '''') = PStr c \<and> c \<noteq> [] \<longrightarrow>
      \<lparr>page_content = c,
        metadata = build_metadata (getattr_default result ''url'' (PStr '''')) result\<rparr>
        \<in> set (yielded (fst (lazy_load h sdk ld)))
      \<and> map_of (build_metadata (getattr_default result ''url'' (PStr '''')) result) ''source'' =
            Some (case getattr_default result ''metadata'' PNone of
                    PDict kvs \<Rightarrow>
                      (case map_of (rev kvs) ''source'' of
                         Some v \<Rightarrow> v
                       | None \<Rightarrow> getattr_default result ''url'' (PStr ''''))
                  | _ \<Rightarrow> getattr_default result ''url'' (PStr '''')))"
proof (intro conjI impI ballI)
  fix d
  assume "d \<in> set (yielded (fst (lazy_load h sdk ld)))"
  then have "d \<in> set (yielded (fst (lazy_load_from h sdk ld (10 * 0) (client ld))))"
    by (simp add: lazy_load_def)
  from yielded_reached[OF _ this] obtain k evs cl response cl' ok rs r c where
    tie: "loop_state h sdk ld k = Some (evs, cl)" "10 * k < length (urls ld)"
      "contents sdk cl (take 10 (drop (10 * k) (urls ld))) (response_length ld)
         (extract_effort ld) = (Inr response, cl')"
      "getattr response ''success'' = Inr ok" "truthy ok"
      "py_iter (getattr_default response ''results'' PNone) = Inr rs" "r \<in> set rs"
      "c \<noteq> []" "getattr_default r ''content'' (PStr '''') = PStr c"
    and d: "d = \<lparr>page_content = c,
                 metadata = build_metadata (getattr_default r ''url'' (PStr '''')) r\<rparr>"
    by auto
  have "map_of (metadata d) ''source'' =
          Some (case getattr_default r ''metadata'' PNone of
                  PDict kvs \<Rightarrow>
                    (case map_of (rev kvs) ''source'' of
                       Some v \<Rightarrow> v
                     | None \<Rightarrow> getattr_default r ''url'' (PStr ''''))
                | _ \<Rightarrow> getattr_default r ''url'' (PStr ''''))"
    by (simp add: d build_metadata_source)
  with tie d show "\<exists>k evs cl response cl' ok rs r c.
        loop_state h sdk ld k = Some (evs, cl) \<and> 10 * k < length (urls ld)
      \<and> contents sdk cl (take 10 (drop (10 * k) (urls ld))) (response_length ld)
            (extract_effort ld) = (Inr response, cl')
      \<and> getattr response ''success'' = Inr ok \<and> truthy ok
      \<and> py_iter (getattr_default response ''results'' PNone) = Inr rs \<and> r \<in> set rs
      \<and> c \<noteq> [] \<and> getattr_default r ''content'' (PStr '''') = PStr c
      \<and> d = \<lparr>page_content = c,
              metadata = build_metadata (getattr_default r ''url'' (PStr '''')) r\<rparr>
      \<and> map_of (metadata d) ''source'' =
            Some (case getattr_default r ''metadata'' PNone of
                    PDict kvs \<Rightarrow>
                      (case map_of (rev kvs) ''source'' of
                         Some v \<Rightarrow> v
                       | None \<Rightarrow> getattr_default r ''url'' (PStr ''''))
                  | _ \<Rightarrow> getattr_default r ''url'' (PStr ''''))"
    by blast
next
  assume a: "loop_state h sdk ld k = Some (evs, cl) \<and> 10 * k < length (urls ld)
        \<and> contents sdk cl (take 10 (drop (10 * k) (urls ld))) (response_length ld)
              (extract_effort ld) = (Inr response, cl')
        \<and> getattr response ''success'' = Inr ok \<and> truthy ok
        \<and> lookup_attr response ''results'' = Some (PList (rs @ result # rs'))
        \<and> snd (process_results rs) = None
        \<and> getattr_default result ''content'' (PStr '''') = PStr c \<and> c \<noteq> []"
  have ne: "rs @ result # rs' \<noteq> []" by simp
  from a have whole: "lazy_load h sdk ld =
           (evs @ Request (take 10 (drop (10 * k) (urls ld)))
              # fst (process_results (rs @ result # rs'))
              @ fst (after_batch (continue_on_failure ld)
                       (snd (process_results (rs @ result # rs')))
                       (lazy_load_from h sdk ld (10 * k + 10) cl')),
            snd (after_batch (continue_on_failure ld)
                   (snd (process_results (rs @ result # rs')))
                   (lazy_load_from h sdk ld (10 * k + 10) cl')))"
    by (intro reached_answer[OF _ _ _ _ _ _ ne]) auto
  from a have "process_results (rs @ result # rs') =
      (fst (process_results rs)
         @ Yield \<lparr>page_content = c,
                  metadata = build_metadata (getattr_default result ''url'' (PStr '''')) result\<rparr>
         # fst (process_results rs'),
       snd (process_results rs'))"
    by (simp add: process_results_append process_results_yield del: process_results.simps)
  with whole show "\<lparr>page_content = c,
        metadata = build_metadata (getattr_default result ''url'' (PStr '''')) result\<rparr>
        \<in> set (yielded (fst (lazy_load h sdk ld)))"
    by (simp add: yielded_append)
  show "map_of (build_metadata (getattr_default result ''url'' (PStr '''')) result) ''source'' =
            Some (case getattr_default result ''metadata'' PNone of
                    PDict kvs \<Rightarrow>
                      (case map_of (rev kvs) ''source'' of
                         Some v \<Rightarrow> v
                       | None \<Rightarrow> getattr_default result ''url'' (PStr ''''))
                  | _ \<Rightarrow> getattr_default result ''url'' (PStr ''''))"
    by (rule build_metadata_source)
qed

theorem source_key_in_metadata_witness:
  "\<lparr>page_content = ''x'', metadata = [(''source'', PStr ''https://elsewhere'')]\<rparr>
     \<in> set (yielded (fst (lazy_load sample_host (scripted [])
          (sample_loader 1 True [Inr (successful [relabelled])]))))
   \<and> (\<exists>k evs cl response cl' ok rs r c.
        loop_state sample_host (scripted [])
          (sample_loader 1 True [Inr (successful [relabelled])]) k = Some (evs, cl)
      \<and> 10 * k < length (urls (sample_loader 1 True [Inr (successful [relabelled])]))
      \<and> contents (scripted []) cl
            (take 10 (drop (10 * k) (urls (sample_loader 1 True [Inr (successful [relabelled])]))))
            (response_length (sample_loader 1 True [Inr (successful [relabelled])]))
            (extract_effort (sample_loader 1 True [Inr (successful [relabelled])]))
          = (Inr response, cl')
      \<and> getattr response ''success'' = Inr ok \<and> truthy ok
      \<and> py_iter (getattr_default response ''results'' PNone) = Inr rs \<and> r \<in> set rs
      \<and> c \<noteq> [] \<and> getattr_default r ''content'' (PStr '''') = PStr c
      \<and> \<lparr>page_content = ''x'', metadata = [(''source'', PStr ''https://elsewhere'')]\<rparr>
          = \<lparr>page_content = c,
             metadata = build_metadata (getattr_default r ''url'' (PStr '''')) r\<rparr>
      \<and> map_of (metadata \<lparr>page_content = ''x'',
                           metadata = [(''source'', PStr ''https://elsewhere'')]\<rparr>) ''source'' =
            Some (case getattr_default r ''metadata'' PNone of
                    PDict kvs \<Rightarrow>
                      (case map_of (rev kvs) ''source'' of
                         Some v \<Rightarrow> v
                       | None \<Rightarrow> getattr_default r ''url'' (PStr ''''))
                  | _ \<Rightarrow> getattr_default r ''url'' (PStr '''')))"
proof -
  let ?ld = "sample_loader 1 True [Inr (successful [relabelled])]"
  let ?d = "\<lparr>page_content = ''x'', metadata = [(''source'', PStr ''https://elsewhere'')]\<rparr>"
  have bm: "build_metadata (getattr_default relabelled ''url'' (PStr '''')) relabelled
              = [(''source'', PStr ''https://elsewhere'')]"
    by (simp add: relabelled_def build_metadata_def hasattr_def getattr_default_def
          dict_update_def dict_setitem_def)
  have hyp: "loop_state sample_host (scripted []) ?ld 0 = Some ([], [Inr (successful [relabelled])])
        \<and> 10 * 0 < length (urls ?ld)
        \<and> contents (scripted []) [Inr (successful [relabelled])]
             (take 10 (drop (10 * 0) (urls ?ld))) (response_length ?ld) (extract_effort ?ld)
             = (Inr (successful [relabelled]), [])
        \<and> getattr (successful [relabelled]) ''success'' = Inr (PBool True)
        \<and> truthy (PBool True)
        \<and> lookup_attr (successful [relabelled]) ''results''
             = Some (PList ([] @ relabelled # []))
        \<and> snd (process_results []) = None
        \<and> getattr_default relabelled ''content'' (PStr '''') = PStr ''x'' \<and> ''x'' \<noteq> []"
    by (simp add: sample_loader_def scripted_def successful_def getattr_def getattr_default_def
          relabelled_def)
  note fw = source_key_in_metadata[of sample_host "scripted []" ?ld 0 "[]"
         "[Inr (successful [relabelled])]" "successful [relabelled]" "[]" "PBool True" "[]"
         relabelled "[]" "''x''", THEN conjunct2, THEN mp, OF hyp, THEN conjunct1]
  have mem: "?d \<in> set (yielded (fst (lazy_load sample_host (scripted []) ?ld)))"
    using fw unfolding bm .
  note bw = source_key_in_metadata[of sample_host "scripted []" ?ld, THEN conjunct1, THEN bspec,
              OF mem]
  from mem bw show ?thesis by (rule conjI)
qed

text \<open>
  C1 as the claim states it fails: a result with url \<^verbatim>\<open>https://a\<close> whose metadata is the
  mapping \<^verbatim>\<open>{"source": "https://elsewhere"}\<close> gives a document whose \<^verbatim>\<open>"source"\<close> is
  \<^verbatim>\<open>https://elsewhere\<close>.
\<close>

theorem provider_source_replaces_url:
  "yielded (fst (lazy_load sample_host (scripted [])
     (sample_loader 1 True
        [Inr (successful
           [PObj [(''url'', PStr ''https://a''), (''content'', PStr ''x''),
                  (''metadata'', PDict [(''source'', PStr ''https://elsewhere'')])]])])))
   = [\<lparr>page_content = ''x'', metadata = [(''source'', PStr ''https://elsewhere'')]\<rparr>]"
  by (simp add: lazy_load_def lazy_load_from.simps sample_loader_def scripted_def
        try_batch_def successful_def getattr_def hasattr_def getattr_default_def
        build_metadata_def dict_update_def dict_setitem_def Let_def Document_init_def)

section \<open>The claims on the search adapter\<close>

text \<open>
  C3: for every API key, query, count and filter list and every behaviour of the provider,
  \<^verbatim>\<open>search_valyu\<close> returns a list and does not raise. When the vendor package is missing,
  when the client's constructor raises, when the search call raises, and when any other
  step of the body raises (a malformed response, the filter), the list is empty and the
  last record logged is an error. The exceptions are those \<^verbatim>\<open>except Exception\<close> catches,
  and the import either binds the client class or raises \<^verbatim>\<open>ImportError\<close>.
\<close>

theorem search_valyu_never_raises:
  "(\<exists>srs. snd (search_valyu h m key query count filter_list) = Inr srs)
   \<and> (m = None \<longrightarrow> search_valyu h m key query count filter_list = ([ERROR], Inr []))
   \<and> (\<forall>sdk e. m = Some sdk \<and> Valyu sdk key = Inl e \<longrightarrow>
         search_valyu h m key query count filter_list = ([INFO, ERROR], Inr []))
   \<and> (\<forall>sdk cl e. m = Some sdk \<and> Valyu sdk key = Inr cl
           \<and> search sdk cl query (if count \<noteq> 0 then count else 10) = Inl e \<longrightarrow>
         search_valyu h m key query count filter_list = ([INFO, ERROR], Inr []))
   \<and> (\<forall>sdk e. m = Some sdk \<and> snd (search_body h sdk key query count filter_list) = Inl e \<longrightarrow>
         snd (search_valyu h m key query count filter_list) = Inr []
         \<and> last (fst (search_valyu h m key query count filter_list)) = ERROR)"
proof (intro conjI allI impI)
  show "\<exists>srs. snd (search_valyu h m key query count filter_list) = Inr srs"
    by (auto simp: search_valyu_def split: option.splits prod.splits sum.splits)
next
  assume "m = None"
  then show "search_valyu h m key query count filter_list = ([ERROR], Inr [])"
    by (simp add: search_valyu_def)
next
  fix sdk e
  assume "m = Some sdk \<and> Valyu sdk key = Inl e"
  then show "search_valyu h m key query count filter_list = ([INFO, ERROR], Inr [])"
    by (simp add: search_valyu_def search_body_def)
next
  fix sdk cl e
  assume "m = Some sdk \<and> Valyu sdk key = Inr cl
            \<and> search sdk cl query (if count \<noteq> 0 then count else 10) = Inl e"
  then show "search_valyu h m key query count filter_list = ([INFO, ERROR], Inr [])"
    by (simp add: search_valyu_def search_body_def)
next
  fix sdk e
  assume a: "m = Some sdk \<and> snd (search_body h sdk key query count filter_list) = Inl e"
  then have "search_valyu h m key query count filter_list
               = (INFO # fst (search_body h sdk key query count filter_list) @ [ERROR], Inr [])"
    using search_valyu_handler[of h sdk key query count filter_list e] by simp
  then show "snd (search_valyu h m key query count filter_list) = Inr []"
    and "last (fst (search_valyu h m key query count filter_list)) = ERROR"
    by simp_all
qed

theorem search_valyu_never_raises_witness:
  "search_valyu sample_host (None :: unit valyu_sdk option) ''key'' ''q'' 5 None
     = ([ERROR], Inr [])
   \<and> search_valyu sample_host (Some (unconstructible (ProviderError ''bad key''))) ''key'' ''q'' 5
       None = ([INFO, ERROR], Inr [])
   \<and> search_valyu sample_host (Some (scripted [Inl (ProviderError ''timeout'')])) ''key'' ''q'' 0
       None = ([INFO, ERROR], Inr [])
   \<and> snd (search_valyu sample_host (Some (scripted [Inr (PInt 3)])) ''key'' ''q'' 5 None) = Inr []"
proof -
  have "search_valyu sample_host (None :: unit valyu_sdk option) ''key'' ''q'' 5 None
          = ([ERROR], Inr [])"
    using search_valyu_never_raises[of sample_host "None :: unit valyu_sdk option"] by blast
  moreover have "Some (unconstructible (ProviderError ''bad key''))
                   = Some (unconstructible (ProviderError ''bad key''))
                 \<and> Valyu (unconstructible (ProviderError ''bad key'')) ''key''
                   = Inl (ProviderError ''bad key'')"
    by (simp add: unconstructible_def)
  then have "search_valyu sample_host (Some (unconstructible (ProviderError ''bad key'')))
               ''key'' ''q'' 5 None = ([INFO, ERROR], Inr [])"
    using search_valyu_never_raises[of sample_host
            "Some (unconstructible (ProviderError ''bad key''))" "''key''" "''q''" 5 None]
    by blast
  moreover have "Some (scripted [Inl (ProviderError ''timeout'')])
                   = Some (scripted [Inl (ProviderError ''timeout'')])
                 \<and> Valyu (scripted [Inl (ProviderError ''timeout'')]) ''key''
                   = Inr [Inl (ProviderError ''timeout'')]
                 \<and> search (scripted [Inl (ProviderError ''timeout'')])
                     [Inl (ProviderError ''timeout'')] ''q'' (if (0::int) \<noteq> 0 then 0 else 10)
                   = Inl (ProviderError ''timeout'')"
    by (simp add: scripted_def)
  then have "search_valyu sample_host (Some (scripted [Inl (ProviderError ''timeout'')]))
               ''key'' ''q'' 0 None = ([INFO, ERROR], Inr [])"
    using search_valyu_never_raises[of sample_host
            "Some (scripted [Inl (ProviderError ''timeout'')])" "''key''" "''q''" 0 None]
    by blast
  moreover have "Some (scripted [Inr (PInt 3)]) = Some (scripted [Inr (PInt 3)])
                 \<and> snd (search_body sample_host (scripted [Inr (PInt 3)]) ''key'' ''q'' 5 None)
                   = Inl (AttributeError ''success'')"
    by (simp add: search_body_def scripted_def getattr_def)
  then have "snd (search_valyu sample_host (Some (scripted [Inr (PInt 3)])) ''key'' ''q'' 5 None)
               = Inr []"
    using search_valyu_never_raises[of sample_host "Some (scripted [Inr (PInt 3)])"
            "''key''" "''q''" 5 None]
    by blast
  ultimately show ?thesis by blast
qed

text \<open>
  C2, as the code has it: take a raw result with a url, in a successful answer, whose
  content value is present and is not a string, the structured case (data type
  \<^verbatim>\<open>"structured"\<close> with a mapping or a sequence) apart. When its data type is
  \<^verbatim>\<open>"structured"\<close>, the content value is coerced with \<^verbatim>\<open>str\<close>, and that text is the
  snippet of the result returned for it. With any other data type, \<^verbatim>\<open>"unstructured"\<close>
  included, the content value is not coerced: it is handed on as it is, no result can be
  built from it, and the search returns the empty list whenever the filter keeps it.
\<close>

theorem content_coerced_when_structured:
  assumes "Valyu sdk key = Inr cl"
      and "search sdk cl query (if count \<noteq> 0 then count else 10) = Inr response"
      and "getattr response ''success'' = Inr ok" and "truthy ok"
      and "lookup_attr response ''results'' = Some (PList rs)"
      and "result \<in> set rs"
      and "has_url result"
      and "truthy (raw_content result)"
      and "\<not> isinstance_str (raw_content result)"
      and "\<not> (raw_data_type result = PStr ''structured''
              \<and> (isinstance_dict (raw_content result) \<or> isinstance_list (raw_content result)))"
  shows "entry h result =
           [(''url'', getattr_default result ''url'' (PStr '''')),
            (''title'', getattr_default result ''title'' (PStr '''')),
            (''content'', if raw_data_type result = PStr ''structured''
                          then PStr (py_str h (raw_content result))
                          else raw_content result),
            (''data_type'', raw_data_type result)]
       \<and> entry h result \<in> set (map (entry h) (filter has_url rs))
       \<and> (raw_data_type result = PStr ''structured'' \<longrightarrow>
            (\<forall>kept srs j.
               apply_filter h filter_list (map (entry h) (filter has_url rs)) = Inr kept
               \<and> to_SearchResults kept = Inr srs \<and> j < length kept
               \<and> kept ! j = entry h result \<longrightarrow>
               snd (search_valyu h (Some sdk) key query count filter_list) = Inr srs
               \<and> getattr_default result ''url'' (PStr '''') = PStr (link (srs ! j))
               \<and> snippet (srs ! j) = Some (py_str h (raw_content result))))
       \<and> (raw_data_type result \<noteq> PStr ''structured'' \<longrightarrow>
            (\<forall>e. to_SearchResult (entry h result) \<noteq> Inr e)
            \<and> (\<forall>kept.
               apply_filter h filter_list (map (entry h) (filter has_url rs)) = Inr kept
               \<and> entry h result \<in> set kept \<longrightarrow>
               snd (search_valyu h (Some sdk) key query count filter_list) = Inr []))"
proof (intro conjI impI allI)
  have cv: "snd (convert_content h (raw_data_type result) (raw_content result)) =
          (if raw_data_type result = PStr ''structured''
           then PStr (py_str h (raw_content result)) else raw_content result)"
    using assms(8-10) by (auto simp: convert_content_def)
  then show "entry h result =
           [(''url'', getattr_default result ''url'' (PStr '''')),
            (''title'', getattr_default result ''title'' (PStr '''')),
            (''content'', if raw_data_type result = PStr ''structured''
                          then PStr (py_str h (raw_content result))
                          else raw_content result),
            (''data_type'', raw_data_type result)]"
    by (simp add: entry_def)
  show "entry h result \<in> set (map (entry h) (filter has_url rs))"
    by (rule entry_kept[OF assms(6,7)])
  {
    fix kept srs j
    assume s: "raw_data_type result = PStr ''structured''"
       and k: "apply_filter h filter_list (map (entry h) (filter has_url rs)) = Inr kept
               \<and> to_SearchResults kept = Inr srs \<and> j < length kept
               \<and> kept ! j = entry h result"
    from k have r: "snd (search_valyu h (Some sdk) key query count filter_list) = Inr srs
       \<and> getattr_default result ''url'' (PStr '''') = PStr (link (srs ! j))
       \<and> validate_optional_str ''snippet''
            (snd (convert_content h (raw_data_type result) (raw_content result)))
           = Inr (snippet (srs ! j))"
      by (intro returned_for_entry[OF assms(1-5)]) auto
    then show "snd (search_valyu h (Some sdk) key query count filter_list) = Inr srs"
      and "getattr_default result ''url'' (PStr '''') = PStr (link (srs ! j))"
      by simp_all
    from r s cv show "snippet (srs ! j) = Some (py_str h (raw_content result))"
      by simp
  }
  {
    assume n: "raw_data_type result \<noteq> PStr ''structured''"
    with cv have c: "snd (convert_content h (raw_data_type result) (raw_content result))
                       = raw_content result"
      by simp
    have bad: "\<exists>e. validate_optional_str ''snippet'' (raw_content result) = Inl e"
      using assms(8,9) by (cases "raw_content result") simp_all
    then have raises: "\<exists>e. to_SearchResult (entry h result) = Inl e"
      by (auto simp: to_SearchResult_entry c SearchResult_init_def split: sum.splits)
    then show "to_SearchResult (entry h result) \<noteq> Inr e" for e by auto
    fix kept
    assume "apply_filter h filter_list (map (entry h) (filter has_url rs)) = Inr kept
               \<and> entry h result \<in> set kept"
    with raises show "snd (search_valyu h (Some sdk) key query count filter_list) = Inr []"
      using unbuildable_entry[OF assms(1-5)] by blast
  }
qed

theorem content_coerced_when_structured_witness:
  "snd (search_valyu sample_host
          (Some (scripted [Inr (successful
             [PObj [(''url'', PStr ''https://a''), (''content'', PInt 7),
                    (''data_type'', PStr ''structured'')]])]))
          ''key'' ''q'' 5 None)
   = Inr [\<lparr>link = ''https://a'', title = Some '''', snippet = Some ''7''\<rparr>]
   \<and> snd (search_valyu sample_host
          (Some (scripted [Inr (successful
             [PObj [(''url'', PStr ''https://a''), (''content'', PInt 7),
                    (''data_type'', PStr ''unstructured'')]])]))
          ''key'' ''q'' 5 None)
   = Inr []"
proof -
  let ?r = "\<lambda>dt. PObj [(''url'', PStr ''https://a''), (''content'', PInt 7),
                        (''data_type'', PStr dt)]"
  have 1: "Valyu (scripted [Inr (successful [r])]) ''key'' = Inr [Inr (successful [r])]" for r
    by (simp add: scripted_def)
  have 2: "search (scripted [Inr (successful [r])]) [Inr (successful [r])] ''q''
             (if (5::int) \<noteq> 0 then 5 else 10) = Inr (successful [r])" for r
    by (simp add: scripted_def)
  have 3: "getattr (successful [r]) ''success'' = Inr (PBool True)" for r
    by (simp add: successful_def getattr_def)
  have 4: "truthy (PBool True)" by simp
  have 5: "lookup_attr (successful [r]) ''results'' = Some (PList [r])" for r
    by (simp add: successful_def)
  have 6: "r \<in> set [r]" for r :: pyval by simp
  have 7: "has_url (?r dt)" for dt by (simp add: has_url_def getattr_default_def)
  have c: "raw_content (?r dt) = PInt 7" for dt
    by (simp add: raw_content_def getattr_default_def py_or_def)
  have dt: "raw_data_type (?r dt) = PStr dt" for dt
    by (simp add: raw_data_type_def getattr_default_def)
  have 8: "truthy (raw_content (?r dt))" and 9: "\<not> isinstance_str (raw_content (?r dt))"
    and 10: "\<not> (raw_data_type (?r dt) = PStr ''structured''
                 \<and> (isinstance_dict (raw_content (?r dt)) \<or> isinstance_list (raw_content (?r dt))))"
    for dt
    by (simp_all add: c)
  note inst = content_coerced_when_structured[OF 1 2 3 4 5 6 7 8 9 10,
                where h = sample_host and filter_list = None]
  have kept: "apply_filter sample_host None (map (entry sample_host) (filter has_url [?r d]))
                = Inr [entry sample_host (?r d)]" for d
    by (simp add: apply_filter_def 7)
  have e: "entry sample_host (?r ''structured'') =
             [(''url'', PStr ''https://a''), (''title'', PStr ''''), (''content'', PStr ''7''),
              (''data_type'', PStr ''structured'')]"
    using inst[of "''structured''", THEN conjunct1]
    by (simp add: c dt getattr_default_def sample_host_def sample_str_def)
  have srs: "to_SearchResults [entry sample_host (?r ''structured'')]
               = Inr [\<lparr>link = ''https://a'', title = Some '''', snippet = Some ''7''\<rparr>]"
    by (simp add: e to_SearchResult_def dict_getitem_def dict_get_def SearchResult_init_def)
  have s: "snd (search_valyu sample_host (Some (scripted [Inr (successful [?r ''structured''])]))
                  ''key'' ''q'' 5 None)
           = Inr [\<lparr>link = ''https://a'', title = Some '''', snippet = Some ''7''\<rparr>]"
    using inst[of "''structured''", THEN conjunct2, THEN conjunct2, THEN conjunct1, THEN mp,
              OF dt, THEN spec, THEN spec, THEN spec, THEN mp,
              of "[entry sample_host (?r ''structured'')]"
                 "[\<lparr>link = ''https://a'', title = Some '''', snippet = Some ''7''\<rparr>]" 0]
          kept[of "''structured''"] srs
    by simp
  have ne: "raw_data_type (?r ''unstructured'') \<noteq> PStr ''structured''"
    by (simp add: dt)
  have u: "snd (search_valyu sample_host (Some (scripted [Inr (successful [?r ''unstructured''])]))
                  ''key'' ''q'' 5 None)
           = Inr []"
    using inst[of "''unstructured''", THEN conjunct2, THEN conjunct2, THEN conjunct2, THEN mp,
              OF ne, THEN conjunct2, THEN spec, THEN mp,
              of "[entry sample_host (?r ''unstructured'')]"]
          kept[of "''unstructured''"]
    by simp
  from s u show ?thesis by simp
qed

text \<open>
  C2 as the claim states it fails: with data type \<^verbatim>\<open>"unstructured"\<close> and the mapping
  \<^verbatim>\<open>{"a": 1}\<close> as content, the content handed on is still that mapping, not a string,
  and the search returns no result for it.
\<close>

theorem unstructured_mapping_not_coerced:
  "snd (extract_results sample_host
          [PObj [(''url'', PStr ''https://a''), (''content'', PDict [(''a'', PInt 1)]),
                 (''data_type'', PStr ''unstructured'')]])
   = [[(''url'', PStr ''https://a''), (''title'', PStr ''''),
       (''content'', PDict [(''a'', PInt 1)]), (''data_type'', PStr ''unstructured'')]]
   \<and> search_valyu sample_host
          (Some (scripted [Inr (successful
             [PObj [(''url'', PStr ''https://a''), (''content'', PDict [(''a'', PInt 1)]),
                    (''data_type'', PStr ''unstructured'')]])]))
          ''key'' ''q'' 5 None
   = ([INFO, INFO, ERROR], Inr [])"
  by (simp add: search_valyu_def search_body_def scripted_def successful_def getattr_def
        collect_results_def hasattr_def getattr_default_def apply_filter_def Let_def
        raw_data_type_def raw_content_def py_or_def convert_content_def
        to_SearchResult_def dict_getitem_def dict_get_def SearchResult_init_def)



text \<open>
  C10, as the code has it: take a raw result with a url, in a successful answer, whose
  content and text fields are empty or missing and whose snippet field is missing, the
  empty string or \<^verbatim>\<open>None\<close>. It is not dropped for its empty content: it is handed on
  like any other result, and a result returned for it has the empty string as its
  snippet, or \<^verbatim>\<open>None\<close> when the snippet field is \<^verbatim>\<open>None\<close>.
\<close>

theorem result_without_content_kept:
  assumes "Valyu sdk key = Inr cl"
      and "search sdk cl query (if count \<noteq> 0 then count else 10) = Inr response"
      and "getattr response ''success'' = Inr ok" and "truthy ok"
      and "lookup_attr response ''results'' = Some (PList rs)"
      and "result \<in> set rs"
      and "has_url result"
      and "\<not> truthy (getattr_default result ''content'' (PStr ''''))"
      and "\<not> truthy (getattr_default result ''text'' (PStr ''''))"
      and "lookup_attr result ''snippet'' = None
           \<or> lookup_attr result ''snippet'' = Some (PStr '''')
           \<or> lookup_attr result ''snippet'' = Some PNone"
  shows "entry h result =
           [(''url'', getattr_default result ''url'' (PStr '''')),
            (''title'', getattr_default result ''title'' (PStr '''')),
            (''content'', if lookup_attr result ''snippet'' = Some PNone then PNone
                          else PStr ''''),
            (''data_type'', raw_data_type result)]
       \<and> entry h result \<in> set (map (entry h) (filter has_url rs))
       \<and> (\<forall>kept srs j.
             apply_filter h filter_list (map (entry h) (filter has_url rs)) = Inr kept
             \<and> to_SearchResults kept = Inr srs \<and> j < length kept
             \<and> kept ! j = entry h result \<longrightarrow>
             snd (search_valyu h (Some sdk) key query count filter_list) = Inr srs
             \<and> getattr_default result ''url'' (PStr '''') = PStr (link (srs ! j))
             \<and> snippet (srs ! j)
                 = (if lookup_attr result ''snippet'' = Some PNone then None else Some ''''))"
proof (intro conjI impI allI)
  have rc: "raw_content result =
              (if lookup_attr result ''snippet'' = Some PNone then PNone else PStr '''')"
    using assms(8-10) by (auto simp: raw_content_def py_or_def getattr_default_def)
  then have sv: "snd (convert_content h (raw_data_type result) (raw_content result)) =
              (if lookup_attr result ''snippet'' = Some PNone then PNone else PStr '''')"
    by (simp add: convert_content_def)
  then show "entry h result =
           [(''url'', getattr_default result ''url'' (PStr '''')),
            (''title'', getattr_default result ''title'' (PStr '''')),
            (''content'', if lookup_attr result ''snippet'' = Some PNone then PNone
                          else PStr ''''),
            (''data_type'', raw_data_type result)]"
    by (simp add: entry_def)
  show "entry h result \<in> set (map (entry h) (filter has_url rs))"
    by (rule entry_kept[OF assms(6,7)])
  fix kept srs j
  assume k: "apply_filter h filter_list (map (entry h) (filter has_url rs)) = Inr kept
             \<and> to_SearchResults kept = Inr srs \<and> j < length kept
             \<and> kept ! j = entry h result"
  then have r: "snd (search_valyu h (Some sdk) key query count filter_list) = Inr srs
     \<and> getattr_default result ''url'' (PStr '''') = PStr (link (srs ! j))
     \<and> validate_optional_str ''snippet''
          (snd (convert_content h (raw_data_type result) (raw_content result)))
         = Inr (snippet (srs ! j))"
    by (intro returned_for_entry[OF assms(1-5)]) auto
  then show "snd (search_valyu h (Some sdk) key query count filter_list) = Inr srs"
    and "getattr_default result ''url'' (PStr '''') = PStr (link (srs ! j))"
    by simp_all
  from r sv show "snippet (srs ! j)
                 = (if lookup_attr result ''snippet'' = Some PNone then None else Some '''')"
    by (auto split: if_splits)
qed

theorem result_without_content_kept_witness:
  "snd (search_valyu sample_host
          (Some (scripted [Inr (successful
             [PObj [(''url'', PStr ''https://a''), (''title'', PStr ''A''),
                    (''content'', PStr '''')]])]))
          ''key'' ''q'' 5 None)
   = Inr [\<lparr>link = ''https://a'', title = Some ''A'', snippet = Some ''''\<rparr>]"
proof -
  let ?r = "PObj [(''url'', PStr ''https://a''), (''title'', PStr ''A''),
                  (''content'', PStr '''')]"
  have 1: "Valyu (scripted [Inr (successful [?r])]) ''key'' = Inr [Inr (successful [?r])]"
    by (simp add: scripted_def)
  have 2: "search (scripted [Inr (successful [?r])]) [Inr (successful [?r])] ''q''
             (if (5::int) \<noteq> 0 then 5 else 10) = Inr (successful [?r])"
    by (simp add: scripted_def)
  have 3: "getattr (successful [?r]) ''success'' = Inr (PBool True)"
    by (simp add: successful_def getattr_def)
  have 4: "truthy (PBool True)" by simp
  have 5: "lookup_attr (successful [?r]) ''results'' = Some (PList [?r])"
    by (simp add: successful_def)
  have 6: "?r \<in> set [?r]" by simp
  have 7: "has_url ?r" by (simp add: has_url_def getattr_default_def)
  have 8: "\<not> truthy (getattr_default ?r ''content'' (PStr ''''))"
    and 9: "\<not> truthy (getattr_default ?r ''text'' (PStr ''''))"
    by (simp_all add: getattr_default_def)
  have 10: "lookup_attr ?r ''snippet'' = None
            \<or> lookup_attr ?r ''snippet'' = Some (PStr '''')
            \<or> lookup_attr ?r ''snippet'' = Some PNone"
    by simp
  note inst = result_without_content_kept[OF 1 2 3 4 5 6 7 8 9 10,
                where h = sample_host and filter_list = None]
  have kept: "apply_filter sample_host None (map (entry sample_host) (filter has_url [?r]))
                = Inr [entry sample_host ?r]"
    by (simp add: apply_filter_def 7)
  have e: "entry sample_host ?r =
             [(''url'', PStr ''https://a''), (''title'', PStr ''A''), (''content'', PStr ''''),
              (''data_type'', PStr ''unstructured'')]"
    using inst[THEN conjunct1] by (simp add: getattr_default_def raw_data_type_def)
  have srs: "to_SearchResults [entry sample_host ?r]
               = Inr [\<lparr>link = ''https://a'', title = Some ''A'', snippet = Some ''''\<rparr>]"
    by (simp add: e to_SearchResult_def dict_getitem_def dict_get_def SearchResult_init_def)
  show ?thesis
    using inst[THEN conjunct2, THEN conjunct2, THEN spec, THEN spec, THEN spec, THEN mp,
               of "[entry sample_host ?r]"
                  "[\<lparr>link = ''https://a'', title = Some ''A'', snippet = Some ''''\<rparr>]" 0]
          kept srs
    by simp
qed

text \<open>
  C10 as the claim states it fails: a result whose snippet field is \<^verbatim>\<open>None\<close> (and whose
  content and text fields are missing) is kept with the snippet \<^verbatim>\<open>None\<close>, not the empty
  string.
\<close>

theorem empty_snippet_field_passed_on:
  "snd (search_valyu sample_host
          (Some (scripted [Inr (successful
             [PObj [(''url'', PStr ''https://a''), (''snippet'', PNone)]])]))
          ''key'' ''q'' 5 None)
   = Inr [\<lparr>link = ''https://a'', title = Some '''', snippet = None\<rparr>]
   \<and> (None :: string option) \<noteq> Some ''''"
  by (simp add: search_valyu_def search_body_def scripted_def successful_def getattr_def
        collect_results_def hasattr_def getattr_default_def apply_filter_def Let_def
        raw_data_type_def raw_content_def py_or_def convert_content_def
        to_SearchResult_def dict_getitem_def dict_get_def SearchResult_init_def)

end
